theory Spec2Isabelle
  imports
    Main
    "HOL-Library.Char_ord"
    "HOL-Library.List_Lexorder"
    "HOL-Library.Product_Lexorder"
    "HOL-Library.Multiset"
    "HOL-Library.Word"
begin

section \<open>Tables\<close>

text \<open>
  A pandas cell is a missing value (\<open>NaN\<close>), a Python \<open>str\<close>, a number or a boolean.
  Numbers are integers; floating-point values are not modelled. Text is ASCII: a \<open>char\<close>
  is one code point below 128, ordered by its code.
  A \<open>DataFrame\<close> is its list of column labels and its rows, each row one cell per column
  (\<open>wf_frame\<close>: a \<open>DataFrame\<close> is rectangular); \<open>df.shape[0]\<close> is the number of rows.
  The row labels (the index) play no part in what the three functions compute.
\<close>

datatype cell = NA | Str string | Num int | Bool bool

record frame =
  columns :: "string list"
  rows :: "cell list list"

datatype error =
    IndexError
  | KeyError
  | AttributeError
  | TypeError
  | ValueError
  | InvalidIndexError
  | RecordCountChanged

definition nrows :: "frame \<Rightarrow> nat" where
  "nrows df = length (rows df)"

definition wf_frame :: "frame \<Rightarrow> bool" where
  "wf_frame df = list_all (\<lambda>r. length r = length (columns df)) (rows df)"

fun is_str :: "cell \<Rightarrow> bool" where
  "is_str (Str s) = True"
| "is_str c = False"

text \<open>\<open>map_cells f df\<close> rewrites every cell with \<open>f\<close>, which sees the label of the cell's column.\<close>

definition map_cells :: "(string \<Rightarrow> cell \<Rightarrow> cell) \<Rightarrow> frame \<Rightarrow> frame" where
  "map_cells f df = df\<lparr>rows := map (\<lambda>r. map2 f (columns df) r) (rows df)\<rparr>"

definition all_cells :: "(string \<Rightarrow> cell \<Rightarrow> bool) \<Rightarrow> frame \<Rightarrow> bool" where
  "all_cells p df = list_all (\<lambda>r. list_all (\<lambda>(l, c). p l c) (zip (columns df) r)) (rows df)"

section \<open>Text operations of \<open>clean_data\<close>\<close>

definition lower_char :: "char \<Rightarrow> char" where
  "lower_char c =
     (if 65 \<le> (of_char c :: nat) \<and> (of_char c :: nat) \<le> 90
      then char_of (of_char c + (32 :: nat)) else c)"

definition lower :: "string \<Rightarrow> string" where
  "lower s = map lower_char s"

text \<open>\<open>str.isspace\<close>, which is also the class \<open>\s\<close> of a \<open>str\<close> pattern.\<close>

definition is_space :: "char \<Rightarrow> bool" where
  "is_space c = (let n = (of_char c :: nat) in (9 \<le> n \<and> n \<le> 13) \<or> (28 \<le> n \<and> n \<le> 32))"

text \<open>The class \<open>\w\<close>: letters, digits and the underscore.\<close>

definition is_word :: "char \<Rightarrow> bool" where
  "is_word c =
     (let n = (of_char c :: nat)
      in (48 \<le> n \<and> n \<le> 57) \<or> (65 \<le> n \<and> n \<le> 90) \<or> (97 \<le> n \<and> n \<le> 122) \<or> n = 95)"

definition strip :: "string \<Rightarrow> string" where
  "strip s = rev (dropWhile is_space (rev (dropWhile is_space s)))"

definition corp_match :: "string \<Rightarrow> bool" where
  "corp_match s = (take 4 s = '' llc'' \<or> take 4 s = '' inc'' \<or> take 4 s = '' ltd'')"

text \<open>
  \<open>re.sub(" llc| inc| ltd", "", s)\<close>: scanning from the left, a match is dropped and the scan
  goes on behind it; otherwise one character is kept.
\<close>

fun remove_corp :: "string \<Rightarrow> string" where
  "remove_corp [] = []"
| "remove_corp (c # cs) =
     (if corp_match (c # cs) then remove_corp (drop 3 cs) else c # remove_corp cs)"

text \<open>\<open>re.sub(r'[^\w\s]', "", s)\<close>.\<close>

definition remove_symbols :: "string \<Rightarrow> string" where
  "remove_symbols s = filter (\<lambda>c. is_word c \<or> is_space c) s"

section \<open>\<open>clean_data\<close>\<close>

definition str_cols :: "string list" where
  "str_cols = [''name'', ''address'', ''city'']"

text \<open>
  \<open>df.rename(columns={df.columns[0]: "name", ..., df.columns[3]: "zip"})\<close>: a dict display
  keeps the last value of a repeated key, and \<open>rename\<close> sends each label through the dict once.
\<close>

definition rename_label :: "string list \<Rightarrow> string \<Rightarrow> string" where
  "rename_label cs l =
     (if l = cs ! 3 then ''zip''
      else if l = cs ! 2 then ''city''
      else if l = cs ! 1 then ''address''
      else if l = cs ! 0 then ''name''
      else l)"

definition rename_columns :: "frame \<Rightarrow> frame" where
  "rename_columns df = df\<lparr>columns := map (rename_label (columns df)) (columns df)\<rparr>"

definition fill_value :: "string \<Rightarrow> cell option" where
  "fill_value l =
     (if l = ''name'' \<or> l = ''address'' \<or> l = ''city'' then Some (Str ''not provided'')
      else if l = ''zip'' then Some (Num 0)
      else None)"

definition fillna_cell :: "string \<Rightarrow> cell \<Rightarrow> cell" where
  "fillna_cell l c = (case (c, fill_value l) of (NA, Some v) \<Rightarrow> v | _ \<Rightarrow> c)"

definition fillna :: "frame \<Rightarrow> frame" where
  "fillna df = map_cells fillna_cell df"

fun lower_cell :: "cell \<Rightarrow> cell" where
  "lower_cell (Str s) = Str (lower s)"
| "lower_cell c = c"

definition lower_columns :: "frame \<Rightarrow> frame" where
  "lower_columns df = map_cells (\<lambda>l c. if l \<in> set str_cols then lower_cell c else c) df"

fun strip_cell :: "cell \<Rightarrow> cell" where
  "strip_cell (Str s) = Str (strip s)"
| "strip_cell c = c"

definition strip_frame :: "frame \<Rightarrow> frame" where
  "strip_frame df = map_cells (\<lambda>l c. strip_cell c) df"

text \<open>\<open>Series.str.replace\<close> gives \<open>NaN\<close> for an element that is not a string.\<close>

fun str_replace_corp :: "cell \<Rightarrow> cell" where
  "str_replace_corp (Str s) = Str (remove_corp s)"
| "str_replace_corp c = NA"

definition remove_corp_name :: "frame \<Rightarrow> frame" where
  "remove_corp_name df = map_cells (\<lambda>l c. if l = ''name'' then str_replace_corp c else c) df"

fun replace_symbols_cell :: "cell \<Rightarrow> cell" where
  "replace_symbols_cell (Str s) = Str (remove_symbols s)"
| "replace_symbols_cell c = c"

definition remove_symbols_columns :: "frame \<Rightarrow> frame" where
  "remove_symbols_columns df =
     map_cells (\<lambda>l c. if l \<in> set str_cols then replace_symbols_cell c else c) df"

text \<open>The last statement of \<open>clean_data\<close>: the count taken on entry against the cleaned table.\<close>

definition check_count :: "nat \<Rightarrow> frame \<Rightarrow> error + frame" where
  "check_count original_count df =
     (if original_count \<noteq> nrows df then Inl RecordCountChanged else Inr df)"

text \<open>
  \<open>clean_data df\<close> is the pair of what the call gives (the returned table, or the exception
  raised) and the caller's table after the call. \<open>rename\<close> and \<open>fillna\<close> run with
  \<open>inplace=True\<close> and the lowercased columns are assigned into \<open>df\<close>, so these three steps
  change the caller's object; \<open>df = df.map(...)\<close> binds \<open>df\<close> to a new table, which the
  later steps work on.
  \<^item> \<open>df.columns[3]\<close> raises \<open>IndexError\<close> on fewer than four columns, before anything changes;
  \<^item> \<open>df[str_cols]\<close> raises \<open>KeyError\<close> when one of the three labels is absent;
  \<^item> \<open>x.lower()\<close> raises \<open>AttributeError\<close> on a cell that is not a string, before the assignment.
\<close>

definition clean_data :: "frame \<Rightarrow> (error + frame) \<times> frame" where
  "clean_data df =
     (let original_count = nrows df in
      if length (columns df) < 4 then (Inl IndexError, df)
      else
        let df1 = rename_columns df;
            df2 = fillna df1
        in if \<not> set str_cols \<subseteq> set (columns df2) then (Inl KeyError, df2)
           else if \<not> all_cells (\<lambda>l c. l \<in> set str_cols \<longrightarrow> is_str c) df2
           then (Inl AttributeError, df2)
           else
             let df3 = lower_columns df2;
                 new1 = strip_frame df3;
                 new2 = remove_corp_name new1;
                 new3 = remove_symbols_columns new2
             in (check_count original_count new3, df3))"

definition clean_result :: "frame \<Rightarrow> error + frame" where
  "clean_result df = fst (clean_data df)"

definition caller_after_clean :: "frame \<Rightarrow> frame" where
  "caller_after_clean df = snd (clean_data df)"

section \<open>\<open>remove_dupes\<close>\<close>

definition key_cols :: "string list" where
  "key_cols = [''name'', ''address'', ''city'', ''zip'']"

fun col_index :: "string list \<Rightarrow> string \<Rightarrow> nat" where
  "col_index [] l = 0"
| "col_index (c # cs) l = (if c = l then 0 else Suc (col_index cs l))"

text \<open>The cell of a row in the column labelled \<open>l\<close>, for a label the table has.\<close>

definition get_cell :: "frame \<Rightarrow> string \<Rightarrow> cell list \<Rightarrow> cell" where
  "get_cell df l r = r ! col_index (columns df) l"

definition key_of :: "frame \<Rightarrow> cell list \<Rightarrow> cell list" where
  "key_of df r = map (\<lambda>l. get_cell df l r) key_cols"

text \<open>
  The order pandas sorts the values of one column in: numbers before strings, missing values
  last; numbers by value, strings by code points.
\<close>

fun cell_ord :: "cell \<Rightarrow> nat \<times> int \<times> string" where
  "cell_ord (Num n) = (0, n, [])"
| "cell_ord (Bool b) = (0, (if b then 1 else 0), [])"
| "cell_ord (Str s) = (1, 0, s)"
| "cell_ord NA = (2, 0, [])"

fun cell_int :: "cell \<Rightarrow> int" where
  "cell_int (Num n) = n"
| "cell_int (Bool b) = (if b then 1 else 0)"
| "cell_int c = 0"

text \<open>
  \<open>df.groupby(["name", "address", "city", "zip"]).size().reset_index(name="occurrences")\<close>:
  a missing label raises \<open>KeyError\<close>, a repeated one \<open>ValueError\<close>; rows with a missing
  value in the key are left out (\<open>dropna=True\<close>); there is one row per key, in the order
  of the keys (\<open>sort=True\<close>), with the number of rows that have it.
\<close>

definition groupby_size :: "frame \<Rightarrow> error + frame" where
  "groupby_size df =
     (if \<not> set key_cols \<subseteq> set (columns df) then Inl KeyError
      else if list_ex (\<lambda>l. 1 < count_list (columns df) l) key_cols then Inl ValueError
      else
        let keys = filter (\<lambda>k. NA \<notin> set k) (map (key_of df) (rows df));
            groups = sort_key (map cell_ord) (remdups keys)
        in Inr \<lparr>columns = key_cols @ [''occurrences''],
                rows = map (\<lambda>k. k @ [Num (int (count_list keys k))]) groups\<rparr>)"

text \<open>
  \<open>sort_values(["occurrences", "name"], ascending=[False, True])\<close>: with several columns
  pandas sorts by a lexicographic indexer, which keeps the order of ties.
\<close>

definition sort_values_occurrences_name :: "frame \<Rightarrow> frame" where
  "sort_values_occurrences_name df =
     df\<lparr>rows := sort_key (\<lambda>r. (- cell_int (get_cell df ''occurrences'' r),
                                  cell_ord (get_cell df ''name'' r))) (rows df)\<rparr>"

fun keep_first :: "'k list \<Rightarrow> ('a \<Rightarrow> 'k) \<Rightarrow> 'a list \<Rightarrow> 'a list" where
  "keep_first seen f [] = []"
| "keep_first seen f (x # xs) =
     (if f x \<in> set seen then keep_first seen f xs else x # keep_first (f x # seen) f xs)"

text \<open>\<open>drop_duplicates(subset=["name", "address", "city", "zip"], keep="first")\<close>.\<close>

definition drop_duplicates :: "frame \<Rightarrow> frame" where
  "drop_duplicates df = df\<lparr>rows := keep_first [] (key_of df) (rows df)\<rparr>"

text \<open>
  \<open>df[l] = v\<close> for a scalar \<open>v\<close>: the column \<open>l\<close> is overwritten where there is one, and
  added as the last column otherwise.
\<close>

definition set_column :: "string \<Rightarrow> cell \<Rightarrow> frame \<Rightarrow> frame" where
  "set_column l v df =
     (if l \<in> set (columns df) then map_cells (\<lambda>l' c. if l' = l then v else c) df
      else \<lparr>columns = columns df @ [l], rows = map (\<lambda>r. r @ [v]) (rows df)\<rparr>)"

text \<open>
  \<open>remove_dupes\<close>: the count of \<open>df.duplicated()\<close> is only logged. \<open>df\<close> is bound to
  the grouped table, so the caller's table is left alone. The indicator columns are
  assigned under the label \<open>source\<close> as it is given.
\<close>

definition remove_dupes :: "frame \<Rightarrow> string \<Rightarrow> error + frame" where
  "remove_dupes df source =
     (case groupby_size df of
        Inl e \<Rightarrow> Inl e
      | Inr g \<Rightarrow>
          let df' = drop_duplicates (sort_values_occurrences_name g)
          in Inr (if source = ''file1''
                  then set_column ''file2'' (Bool False) (set_column source (Bool True) df')
                  else set_column source (Bool True) (set_column ''file1'' (Bool False) df')))"

section \<open>\<open>combine_dataframes\<close>\<close>

text \<open>
  \<open>pd.concat(dataframes)\<close>: an empty list raises \<open>ValueError\<close>. Tables with the same labels
  are stacked; otherwise the labels are united in the order they first appear and a cell a
  table has no column for is missing (which needs labels that do not repeat).
\<close>

fun keep_first_labels :: "string list \<Rightarrow> string list" where
  "keep_first_labels [] = []"
| "keep_first_labels (l # ls) = l # filter (\<lambda>x. x \<noteq> l) (keep_first_labels ls)"

definition reindex_row :: "string list \<Rightarrow> string list \<Rightarrow> cell list \<Rightarrow> cell list" where
  "reindex_row new old r = map (\<lambda>l. if l \<in> set old then r ! col_index old l else NA) new"

definition concat_frames :: "frame list \<Rightarrow> error + frame" where
  "concat_frames dfs =
     (case dfs of
        [] \<Rightarrow> Inl ValueError
      | d # ds \<Rightarrow>
          if list_all (\<lambda>x. columns x = columns d) ds
          then Inr \<lparr>columns = columns d, rows = concat (map rows dfs)\<rparr>
          else if list_ex (\<lambda>x. \<not> distinct (columns x)) dfs then Inl InvalidIndexError
          else
            let cs = keep_first_labels (concat (map columns dfs))
            in Inr \<lparr>columns = cs,
                    rows = concat (map (\<lambda>x. map (reindex_row cs (columns x)) (rows x)) dfs)\<rparr>)"

text \<open>
  Python orders strings among themselves and numbers among themselves; comparing a string
  with a number raises \<open>TypeError\<close>.
\<close>

fun is_num :: "cell \<Rightarrow> bool" where
  "is_num (Num n) = True"
| "is_num (Bool b) = True"
| "is_num c = False"

definition sortable :: "cell list \<Rightarrow> bool" where
  "sortable ks = (list_all is_str ks \<or> list_all is_num ks)"

text \<open>
  \<open>df.sort_values(by=["name"])\<close> sorts one column with the default \<open>kind="quicksort"\<close>.
  The routine that sorts is the library's and is a parameter here: \<open>argsort ks\<close> gives
  the positions of \<open>ks\<close> in sorted order. pandas sorts the values that are not missing and
  puts the missing ones behind them.
\<close>

definition nargsort :: "(cell list \<Rightarrow> nat list) \<Rightarrow> cell list \<Rightarrow> nat list" where
  "nargsort argsort ks =
     (let idx = [0..<length ks];
          non_nan_idx = filter (\<lambda>i. ks ! i \<noteq> NA) idx;
          nan_idx = filter (\<lambda>i. ks ! i = NA) idx
      in map (\<lambda>j. non_nan_idx ! j) (argsort (map (\<lambda>i. ks ! i) non_nan_idx)) @ nan_idx)"

definition sort_values_name :: "(cell list \<Rightarrow> nat list) \<Rightarrow> frame \<Rightarrow> error + frame" where
  "sort_values_name argsort df =
     (if ''name'' \<notin> set (columns df) then Inl KeyError
      else if 1 < count_list (columns df) ''name'' then Inl ValueError
      else
        let ks = map (get_cell df ''name'') (rows df)
        in if \<not> sortable (filter (\<lambda>k. k \<noteq> NA) ks) then Inl TypeError
           else Inr (df\<lparr>rows := map (\<lambda>i. rows df ! i) (nargsort argsort ks)\<rparr>))"

text \<open>What the library's sort has to give: the positions, each once, in an order that sorts.\<close>

definition argsort_ok :: "(cell list \<Rightarrow> nat list) \<Rightarrow> bool" where
  "argsort_ok argsort =
     (\<forall>ks. sortable ks \<longrightarrow>
        mset (argsort ks) = mset [0..<length ks] \<and>
        sorted (map (\<lambda>i. cell_ord (ks ! i)) (argsort ks)))"

subsection \<open>\<open>str(tuple(x))\<close>\<close>

definition hex_digit :: "nat \<Rightarrow> char" where
  "hex_digit n = ''0123456789abcdef'' ! n"

fun hex_of_nat :: "nat \<Rightarrow> nat \<Rightarrow> string" where
  "hex_of_nat 0 n = []"
| "hex_of_nat (Suc k) n = hex_of_nat k (n div 16) @ [hex_digit (n mod 16)]"

fun digits :: "nat \<Rightarrow> string" where
  "digits n = (if n < 10 then [hex_digit n] else digits (n div 10) @ [hex_digit (n mod 10)])"

declare digits.simps [simp del]

definition repr_int :: "int \<Rightarrow> string" where
  "repr_int i = (if i < 0 then CHR ''-'' # digits (nat (- i)) else digits (nat i))"

text \<open>
  \<open>repr\<close> of a \<open>str\<close>: quoted with \<open>'\<close>, or with \<open>"\<close> when the text has a \<open>'\<close> and no \<open>"\<close>;
  the quote and the backslash are escaped, and so is every character that does not print.
\<close>

definition repr_char :: "char \<Rightarrow> char \<Rightarrow> string" where
  "repr_char q c =
     (let n = (of_char c :: nat) in
      if c = q \<or> n = 92 then [char_of (92 :: nat), c]
      else if n = 9 then [char_of (92 :: nat), CHR ''t'']
      else if n = 10 then [char_of (92 :: nat), CHR ''n'']
      else if n = 13 then [char_of (92 :: nat), CHR ''r'']
      else if n < 32 \<or> n = 127 then [char_of (92 :: nat), CHR ''x''] @ hex_of_nat 2 n
      else [c])"

definition repr_str :: "string \<Rightarrow> string" where
  "repr_str s =
     (let q = (if char_of (39 :: nat) \<in> set s \<and> char_of (34 :: nat) \<notin> set s
               then char_of (34 :: nat) else char_of (39 :: nat))
      in [q] @ concat (map (repr_char q) s) @ [q])"

fun repr_cell :: "cell \<Rightarrow> string" where
  "repr_cell NA = ''nan''"
| "repr_cell (Str s) = repr_str s"
| "repr_cell (Num n) = repr_int n"
| "repr_cell (Bool b) = (if b then ''True'' else ''False'')"

fun join_comma :: "string list \<Rightarrow> string" where
  "join_comma [] = []"
| "join_comma [x] = x"
| "join_comma (x # y # ys) = x @ '', '' @ join_comma (y # ys)"

definition str_tuple :: "cell list \<Rightarrow> string" where
  "str_tuple r =
     (case r of
        [c] \<Rightarrow> ''('' @ repr_cell c @ '',)''
      | _ \<Rightarrow> ''('' @ join_comma (map repr_cell r) @ '')'')"

subsection \<open>The id\<close>

text \<open>
  \<open>hashlib.md5\<close> is the library's: \<open>md5\<close> is a parameter, any function from the encoded text
  to a digest of 128 bits. \<open>hexdigest\<close> writes the digest as 32 hexadecimal digits.
  ASCII text is its own UTF-8 encoding.
\<close>

definition encode_utf8 :: "string \<Rightarrow> string" where
  "encode_utf8 s = s"

definition hexdigest :: "128 word \<Rightarrow> string" where
  "hexdigest w = hex_of_nat 32 (unat w)"

definition row_id :: "(string \<Rightarrow> 128 word) \<Rightarrow> cell list \<Rightarrow> string" where
  "row_id md5 r = hexdigest (md5 (encode_utf8 (str_tuple r)))"

definition without_column :: "string \<Rightarrow> string list \<Rightarrow> cell list \<Rightarrow> cell list" where
  "without_column l cs r = map snd (filter (\<lambda>(l', c). l' \<noteq> l) (zip cs r))"

text \<open>
  \<open>df["id"] = df.apply(...)\<close> hashes each row as it is; \<open>df.pop("id")\<close> and
  \<open>df.insert(0, "id", col)\<close> then make \<open>id\<close> the first column.
\<close>

definition add_id :: "(string \<Rightarrow> 128 word) \<Rightarrow> frame \<Rightarrow> frame" where
  "add_id md5 df =
     \<lparr>columns = ''id'' # filter (\<lambda>l. l \<noteq> ''id'') (columns df),
      rows = map (\<lambda>r. Str (row_id md5 r) # without_column ''id'' (columns df) r) (rows df)\<rparr>"

definition combine_dataframes ::
  "(cell list \<Rightarrow> nat list) \<Rightarrow> (string \<Rightarrow> 128 word) \<Rightarrow> frame list \<Rightarrow> error + frame" where
  "combine_dataframes argsort md5 dataframes =
     (case concat_frames dataframes of
        Inl e \<Rightarrow> Inl e
      | Inr df \<Rightarrow>
          (case sort_values_name argsort df of
             Inl e \<Rightarrow> Inl e
           | Inr sorted_df \<Rightarrow> Inr (add_id md5 sorted_df)))"

section \<open>Properties and sample tables\<close>

text \<open>The table \<open>clean_data\<close> returns when no step raises.\<close>

definition cleaned :: "frame \<Rightarrow> frame" where
  "cleaned df =
     remove_symbols_columns (remove_corp_name (strip_frame (lower_columns (fillna (rename_columns df)))))"

text \<open>Every cell of the first three columns is a string or missing.\<close>

definition text_columns_ok :: "frame \<Rightarrow> bool" where
  "text_columns_ok df =
     list_all (\<lambda>r. list_all (\<lambda>c. c = NA \<or> is_str c) (take 3 r)) (rows df)"

text \<open>Some cell of the first three columns is neither a string nor missing.\<close>

definition has_non_string :: "frame \<Rightarrow> bool" where
  "has_non_string df =
     list_ex (\<lambda>r. list_ex (\<lambda>c. c \<noteq> NA \<and> \<not> is_str c) (take 3 r)) (rows df)"

definition raw_sample :: frame where
  "raw_sample =
     \<lparr>columns = [''Name'', ''Addr'', ''Town'', ''Zip''],
      rows = [[Str ''  Acme LLC '', Str ''1 Main St.'', NA, NA],
              [Str ''Bob! '', NA, Str ''X'', Num 5],
              [Str ''bob'', NA, Str ''x'', Num 5]]\<rparr>"

definition clean_sample :: frame where
  "clean_sample =
     \<lparr>columns = [''name'', ''address'', ''city'', ''zip''],
      rows = [[Str ''acme'', Str ''1 main st'', Str ''not provided'', Num 0],
              [Str ''bob'', Str ''not provided'', Str ''x'', Num 5],
              [Str ''bob'', Str ''not provided'', Str ''x'', Num 5]]\<rparr>"

definition numeric_name_sample :: frame where
  "numeric_name_sample =
     \<lparr>columns = [''Name'', ''Addr'', ''Town'', ''Zip''],
      rows = [[Num 42, Str ''1 Main St.'', Str ''X'', Num 5]]\<rparr>"

text \<open>What \<open>clean_data\<close> does to one cell of the column labelled \<open>l\<close>, all steps in a row.\<close>

definition clean_cell :: "string \<Rightarrow> cell \<Rightarrow> cell" where
  "clean_cell l c =
     (let c1 = fillna_cell l c;
          c2 = (if l \<in> set str_cols then lower_cell c1 else c1);
          c3 = strip_cell c2;
          c4 = (if l = ''name'' then str_replace_corp c3 else c3)
      in if l \<in> set str_cols then replace_symbols_cell c4 else c4)"

text \<open>A second pass over a cleaned table.\<close>

definition clean_twice :: "frame \<Rightarrow> error + frame" where
  "clean_twice df = (case clean_result df of Inl e \<Rightarrow> Inl e | Inr d \<Rightarrow> clean_result d)"

text \<open>Text with no whitespace at either end.\<close>

definition trimmed :: "string \<Rightarrow> bool" where
  "trimmed s = (s = [] \<or> (\<not> is_space (hd s) \<and> \<not> is_space (last s)))"

text \<open>Text in which none of \<open>" llc"\<close>, \<open>" inc"\<close>, \<open>" ltd"\<close> starts anywhere.\<close>

fun suffix_free :: "string \<Rightarrow> bool" where
  "suffix_free [] = True"
| "suffix_free (c # cs) = (\<not> corp_match (c # cs) \<and> suffix_free cs)"

fun cell_trimmed :: "cell \<Rightarrow> bool" where
  "cell_trimmed (Str s) = trimmed s"
| "cell_trimmed c = True"

fun cell_suffix_free :: "cell \<Rightarrow> bool" where
  "cell_suffix_free (Str s) = suffix_free s"
| "cell_suffix_free c = True"

definition text_trimmed :: "frame \<Rightarrow> bool" where
  "text_trimmed df = all_cells (\<lambda>l c. l \<in> set str_cols \<longrightarrow> cell_trimmed c) df"

definition names_suffix_free :: "frame \<Rightarrow> bool" where
  "names_suffix_free df = all_cells (\<lambda>l c. l = ''name'' \<longrightarrow> cell_suffix_free c) df"

definition dotted_suffix_sample :: frame where
  "dotted_suffix_sample =
     \<lparr>columns = [''name'', ''address'', ''city'', ''zip''],
      rows = [[Str ''acme l.lc'', Str ''1 main st'', Str ''springfield'', Num 11111]]\<rparr>"

definition three_column_sample :: frame where
  "three_column_sample =
     \<lparr>columns = [''Name'', ''Addr'', ''Town''],
      rows = [[Str ''Acme'', Str ''1 Main St.'', Str ''X'']]\<rparr>"

definition caller_sample_after :: frame where
  "caller_sample_after =
     \<lparr>columns = [''name'', ''address'', ''city'', ''zip''],
      rows = [[Str ''  acme llc '', Str ''1 main st.'', Str ''not provided'', Num 0],
              [Str ''bob! '', Str ''not provided'', Str ''x'', Num 5],
              [Str ''bob'', Str ''not provided'', Str ''x'', Num 5]]\<rparr>"

text \<open>Each of the four key labels names exactly one column.\<close>

definition has_key_columns :: "frame \<Rightarrow> bool" where
  "has_key_columns df = list_all (\<lambda>l. count_list (columns df) l = 1) key_cols"

text \<open>No row has a missing value in its key.\<close>

definition no_missing_keys :: "frame \<Rightarrow> bool" where
  "no_missing_keys df = list_all (\<lambda>r. NA \<notin> set (key_of df r)) (rows df)"

text \<open>The parts of \<open>groupby_size\<close>: the keys that are grouped, the rows it gives, its table.\<close>

definition grouped_keys :: "frame \<Rightarrow> cell list list" where
  "grouped_keys df = filter (\<lambda>k. NA \<notin> set k) (map (key_of df) (rows df))"

definition grouped_rows :: "frame \<Rightarrow> cell list list" where
  "grouped_rows df =
     map (\<lambda>k. k @ [Num (int (count_list (grouped_keys df) k))])
       (sort_key (map cell_ord) (remdups (grouped_keys df)))"

definition grouped :: "frame \<Rightarrow> frame" where
  "grouped df = \<lparr>columns = key_cols @ [''occurrences''], rows = grouped_rows df\<rparr>"


definition keys_of :: "frame \<Rightarrow> cell list list" where
  "keys_of df = map (key_of df) (rows df)"

text \<open>
  What the merger is given: rectangular tables with distinct labels, a column \<open>name\<close> of
  strings and no column \<open>id\<close> yet.
\<close>

definition dedup_schema :: "frame \<Rightarrow> bool" where
  "dedup_schema df =
     (wf_frame df \<and> distinct (columns df) \<and> ''name'' \<in> set (columns df) \<and>
      ''id'' \<notin> set (columns df) \<and> list_all (\<lambda>r. is_str (get_cell df ''name'' r)) (rows df))"

text \<open>The rows \<open>pd.concat\<close> stacks, in the order of the tables.\<close>

definition stacked :: "frame list \<Rightarrow> cell list list" where
  "stacked dfs = (case concat_frames dfs of Inl e \<Rightarrow> [] | Inr df \<Rightarrow> rows df)"

definition names_column :: "frame \<Rightarrow> cell list" where
  "names_column df = map (get_cell df ''name'') (rows df)"

text \<open>
  Two sorts that meet \<open>argsort_ok\<close>: one keeps equal values in their order, one reverses
  them.
\<close>

definition stable_argsort :: "cell list \<Rightarrow> nat list" where
  "stable_argsort ks = sort_key (\<lambda>i. cell_ord (ks ! i)) [0..<length ks]"


text \<open>A stand-in digest for the sample merges.\<close>

definition sample_md5 :: "string \<Rightarrow> 128 word" where
  "sample_md5 s = word_of_nat (sum_list (map of_char s) + 1000 * length s)"



definition file1_sample :: frame where
  "file1_sample =
     \<lparr>columns = [''name'', ''address'', ''city'', ''zip'', ''occurrences'', ''file1'', ''file2''],
      rows = [[Str ''bob'', Str ''not provided'', Str ''x'', Num 5, Num 2, Bool True, Bool False],
              [Str ''acme'', Str ''1 main st'', Str ''not provided'', Num 0, Num 1, Bool True, Bool False]]\<rparr>"

definition file2_sample :: frame where
  "file2_sample =
     \<lparr>columns = [''name'', ''address'', ''city'', ''zip'', ''occurrences'', ''file1'', ''file2''],
      rows = [[Str ''acme'', Str ''1 main st'', Str ''not provided'', Num 0, Num 3, Bool False, Bool True]]\<rparr>"




section \<open>Facts about tables\<close>

lemma nrows_map_cells [simp]: "nrows (map_cells f df) = nrows df"
  by (simp add: nrows_def map_cells_def)

lemma nrows_rename_columns [simp]: "nrows (rename_columns df) = nrows df"
  by (simp add: nrows_def rename_columns_def)

lemma columns_map_cells [simp]: "columns (map_cells f df) = columns df"
  by (simp add: map_cells_def)

lemma rows_rename_columns [simp]: "rows (rename_columns df) = rows df"
  by (simp add: rename_columns_def)

lemma length_columns_rename [simp]:
  "length (columns (rename_columns df)) = length (columns df)"
  by (simp add: rename_columns_def)

lemma wf_frame_map_cells: "wf_frame df \<Longrightarrow> wf_frame (map_cells f df)"
  by (auto simp: wf_frame_def map_cells_def list_all_iff)

lemma wf_frame_rename_columns [simp]: "wf_frame (rename_columns df) = wf_frame df"
  by (simp add: wf_frame_def rename_columns_def)

lemma all_cells_iff:
  "all_cells p df \<longleftrightarrow>
     (\<forall>r\<in>set (rows df). \<forall>i. i < length (columns df) \<and> i < length r \<longrightarrow> p (columns df ! i) (r ! i))"
  by (auto simp: all_cells_def list_all_iff set_zip)

lemma all_cells_map_cells:
  "all_cells p (map_cells f df) \<longleftrightarrow> all_cells (\<lambda>l c. p l (f l c)) df"
proof -
  have "\<And>r i. i < length (columns df) \<Longrightarrow> i < length r \<Longrightarrow>
          map2 f (columns df) r ! i = f (columns df ! i) (r ! i)"
    by simp
  then show ?thesis
    unfolding all_cells_iff by (simp add: map_cells_def)
qed

lemma list_all_take3:
  "list_all P (take 3 r) \<longleftrightarrow> (\<forall>i. i < 3 \<and> i < length r \<longrightarrow> P (r ! i))"
  by (auto simp: list_all_length)

lemma list_ex_take3:
  "list_ex P (take 3 r) \<longleftrightarrow> (\<exists>i. i < 3 \<and> i < length r \<and> P (r ! i))"
  by (auto simp: list_ex_length)

lemma text_columns_ok_iff:
  "text_columns_ok df \<longleftrightarrow>
     (\<forall>r\<in>set (rows df). \<forall>i. i < 3 \<and> i < length r \<longrightarrow> r ! i = NA \<or> is_str (r ! i))"
  unfolding text_columns_ok_def list_all_take3 by (simp add: list_all_iff)

lemma has_non_string_iff:
  "has_non_string df \<longleftrightarrow>
     (\<exists>r\<in>set (rows df). \<exists>i. i < 3 \<and> i < length r \<and> r ! i \<noteq> NA \<and> \<not> is_str (r ! i))"
  unfolding has_non_string_def list_ex_take3 by (simp add: list_ex_iff)

section \<open>Renaming by position\<close>

lemma rename_label_first4:
  assumes "4 \<le> length cs" "distinct (take 4 cs)"
  shows "rename_label cs (cs ! 0) = ''name''" "rename_label cs (cs ! 1) = ''address''"
    "rename_label cs (cs ! 2) = ''city''" "rename_label cs (cs ! 3) = ''zip''"
proof -
  have d: "\<And>i j. i < 4 \<Longrightarrow> j < 4 \<Longrightarrow> i \<noteq> j \<Longrightarrow> cs ! i \<noteq> cs ! j"
    using assms by (auto simp: distinct_conv_nth)
  show "rename_label cs (cs ! 0) = ''name''"
    using d[of 0 1] d[of 0 2] d[of 0 3] by (simp add: rename_label_def)
  show "rename_label cs (cs ! 1) = ''address''"
    using d[of 1 2] d[of 1 3] by (simp add: rename_label_def)
  show "rename_label cs (cs ! 2) = ''city''"
    using d[of 2 3] by (simp add: rename_label_def)
  show "rename_label cs (cs ! 3) = ''zip''"
    by (simp add: rename_label_def)
qed

lemma renamed_first4:
  assumes "4 \<le> length (columns df)" "distinct (take 4 (columns df))"
  shows "columns (rename_columns df) ! 0 = ''name''"
    "columns (rename_columns df) ! 1 = ''address''"
    "columns (rename_columns df) ! 2 = ''city''"
    "columns (rename_columns df) ! 3 = ''zip''"
proof -
  have "0 < length (columns df)" "1 < length (columns df)" "2 < length (columns df)"
    "3 < length (columns df)" using assms(1) by auto
  then show "columns (rename_columns df) ! 0 = ''name''"
    "columns (rename_columns df) ! 1 = ''address''"
    "columns (rename_columns df) ! 2 = ''city''"
    "columns (rename_columns df) ! 3 = ''zip''"
    using rename_label_first4[OF assms] by (simp_all add: rename_columns_def)
qed

lemma str_cols_renamed:
  assumes "4 \<le> length (columns df)" "distinct (take 4 (columns df))"
  shows "set str_cols \<subseteq> set (columns (rename_columns df))"
proof -
  have "columns (rename_columns df) ! 0 \<in> set (columns (rename_columns df))"
    "columns (rename_columns df) ! 1 \<in> set (columns (rename_columns df))"
    "columns (rename_columns df) ! 2 \<in> set (columns (rename_columns df))"
    using assms(1) by (simp_all only: nth_mem length_columns_rename)
  then show ?thesis using renamed_first4[OF assms] by (simp add: str_cols_def)
qed

lemma str_label_position:
  assumes "4 \<le> length cs" "distinct cs" "cs ! 0 = ''name''" "cs ! 1 = ''address''"
    "cs ! 2 = ''city''" "i < length cs" "cs ! i \<in> set str_cols"
  shows "i < 3"
proof (rule ccontr)
  assume "\<not> i < 3"
  then have "i \<noteq> 0" "i \<noteq> 1" "i \<noteq> 2" by auto
  moreover have "0 < length cs" "1 < length cs" "2 < length cs" using assms(1) by auto
  ultimately have "cs ! i \<noteq> cs ! 0" "cs ! i \<noteq> cs ! 1" "cs ! i \<noteq> cs ! 2"
    using assms(2,6) by (simp_all add: nth_eq_iff_index_eq)
  then show False using assms(3,4,5,7) by (auto simp: str_cols_def)
qed

section \<open>When \<open>clean_data\<close> returns and when it raises\<close>

lemma fillna_cell_is_str:
  "l \<in> set str_cols \<Longrightarrow> c = NA \<or> is_str c \<Longrightarrow> is_str (fillna_cell l c)"
  by (cases c) (auto simp: fillna_cell_def fill_value_def str_cols_def)

lemma fillna_cell_keeps: "c \<noteq> NA \<Longrightarrow> fillna_cell l c = c"
  by (cases c) (auto simp: fillna_cell_def split: option.splits)

lemma nrows_cleaned: "nrows (cleaned df) = nrows df"
  by (simp add: cleaned_def remove_symbols_columns_def remove_corp_name_def strip_frame_def
      lower_columns_def fillna_def)

lemma clean_result_Inr: "clean_result df = Inr d \<Longrightarrow> d = cleaned df"
  by (auto simp: clean_result_def clean_data_def Let_def check_count_def cleaned_def
      split: if_splits)

lemma clean_result_never_count_changed: "clean_result df \<noteq> Inl RecordCountChanged"
  using nrows_cleaned[of df]
  by (auto simp: clean_result_def clean_data_def Let_def check_count_def cleaned_def)

lemma clean_result_returns:
  assumes wf: "wf_frame df" and len: "4 \<le> length (columns df)"
    and dist: "distinct (columns (rename_columns df))" and tok: "text_columns_ok df"
  shows "clean_result df = Inr (cleaned df)"
proof -
  let ?df1 = "rename_columns df"
  have dcs: "distinct (columns df)"
    using dist by (simp add: rename_columns_def distinct_map)
  then have d4: "distinct (take 4 (columns df))" by simp
  note first = renamed_first4[OF len d4]
  have keys: "set str_cols \<subseteq> set (columns (fillna ?df1))"
    using str_cols_renamed[OF len d4] by (simp add: fillna_def)
  have "all_cells (\<lambda>l c. l \<in> set str_cols \<longrightarrow> is_str (fillna_cell l c)) ?df1"
    unfolding all_cells_iff
  proof (intro ballI allI impI, elim conjE)
    fix r i
    assume r: "r \<in> set (rows ?df1)" and i: "i < length (columns ?df1)" "i < length r"
      and l: "columns ?df1 ! i \<in> set str_cols"
    have "i < 3"
      using str_label_position[of "columns ?df1" i] len dist first i(1) l by simp
    then have "r ! i = NA \<or> is_str (r ! i)"
      using tok r i(2) by (auto simp: text_columns_ok_iff)
    then show "is_str (fillna_cell (columns ?df1 ! i) (r ! i))"
      using l by (rule fillna_cell_is_str[rotated])
  qed
  then have cells: "all_cells (\<lambda>l c. l \<in> set str_cols \<longrightarrow> is_str c) (fillna ?df1)"
    by (simp add: fillna_def all_cells_map_cells)
  have "nrows (cleaned df) = nrows df"
    by (rule nrows_cleaned)
  then show ?thesis
    using len keys cells
    by (simp add: clean_result_def clean_data_def Let_def check_count_def cleaned_def)
qed

text \<open>
  C1. Whenever \<open>clean_data\<close> returns a table, the table has as many rows as the input; the
  count check at its end gives the integrity error for every cleaned table whose count is
  not the one taken on entry, and no input makes \<open>clean_data\<close> raise it, because no step
  drops or adds a row. On a rectangular table of at least four columns, whose labels stay
  distinct under the renaming and whose first three columns hold strings or missing values,
  \<open>clean_data\<close> does return.
\<close>

theorem clean_data_preserves_row_count:
  "(clean_result df = Inr d \<longrightarrow> nrows d = nrows df) \<and>
   (original_count \<noteq> nrows new \<longrightarrow> check_count original_count new = Inl RecordCountChanged) \<and>
   clean_result df \<noteq> Inl RecordCountChanged \<and>
   (wf_frame df \<and> 4 \<le> length (columns df) \<and> distinct (columns (rename_columns df)) \<and>
    text_columns_ok df \<longrightarrow> (\<exists>d'. clean_result df = Inr d' \<and> nrows d' = nrows df))"
proof (intro conjI impI)
  assume "clean_result df = Inr d"
  then show "nrows d = nrows df"
    using clean_result_Inr[of df d] nrows_cleaned[of df] by simp
next
  assume "original_count \<noteq> nrows new"
  then show "check_count original_count new = Inl RecordCountChanged"
    by (simp add: check_count_def)
next
  show "clean_result df \<noteq> Inl RecordCountChanged"
    by (rule clean_result_never_count_changed)
next
  assume "wf_frame df \<and> 4 \<le> length (columns df) \<and> distinct (columns (rename_columns df)) \<and>
    text_columns_ok df"
  then have "clean_result df = Inr (cleaned df)"
    using clean_result_returns by blast
  then show "\<exists>d'. clean_result df = Inr d' \<and> nrows d' = nrows df"
    using nrows_cleaned by blast
qed

theorem clean_data_preserves_row_count_witness:
  "clean_result raw_sample = Inr clean_sample \<and> nrows clean_sample = nrows raw_sample \<and>
   7 \<noteq> nrows clean_sample \<and> check_count 7 clean_sample = Inl RecordCountChanged \<and>
   wf_frame raw_sample \<and> 4 \<le> length (columns raw_sample) \<and>
   distinct (columns (rename_columns raw_sample)) \<and> text_columns_ok raw_sample \<and>
   (\<exists>d'. clean_result raw_sample = Inr d' \<and> nrows d' = nrows raw_sample)"
proof -
  have h1: "clean_result raw_sample = Inr clean_sample" by code_simp
  have h2: "7 \<noteq> nrows clean_sample" by code_simp
  have h3: "wf_frame raw_sample \<and> 4 \<le> length (columns raw_sample) \<and>
    distinct (columns (rename_columns raw_sample)) \<and> text_columns_ok raw_sample"
    by code_simp
  show ?thesis
    using clean_data_preserves_row_count[of raw_sample clean_sample 7 clean_sample] h1 h2 h3
    by blast
qed

text \<open>
  C10. On a rectangular table whose first four labels are distinct, one cell of the first
  three columns that is neither a string nor missing makes \<open>clean_data\<close> raise: the
  \<open>AttributeError\<close> of \<open>x.lower()\<close> (or the \<open>IndexError\<close> of a table of fewer than four
  columns), and no table is returned.
\<close>

theorem clean_data_requires_strings:
  assumes "wf_frame df" and "distinct (take 4 (columns df))" and "has_non_string df"
  shows "clean_result df = Inl (if length (columns df) < 4 then IndexError else AttributeError)"
proof (cases "length (columns df) < 4")
  case True
  then show ?thesis by (simp add: clean_result_def clean_data_def Let_def)
next
  case False
  then have len: "4 \<le> length (columns df)" by simp
  let ?df1 = "rename_columns df"
  note first = renamed_first4[OF len assms(2)]
  have keys: "set str_cols \<subseteq> set (columns (fillna ?df1))"
    using str_cols_renamed[OF len assms(2)] by (simp add: fillna_def)
  obtain r i where r: "r \<in> set (rows df)" and i: "i < 3" "i < length r"
    and c: "r ! i \<noteq> NA" "\<not> is_str (r ! i)"
    using assms(3) by (auto simp: has_non_string_iff)
  have lr: "length r = length (columns df)"
    using assms(1) r by (simp add: wf_frame_def list_all_iff)
  have l: "columns ?df1 ! i \<in> set str_cols"
  proof -
    from i(1) have "i = 0 \<or> i = 1 \<or> i = 2" by auto
    then show ?thesis using first by (auto simp: str_cols_def)
  qed
  have "\<not> all_cells (\<lambda>l c. l \<in> set str_cols \<longrightarrow> is_str (fillna_cell l c)) ?df1"
    unfolding all_cells_iff
    using r i lr len l c by (auto simp: fillna_cell_keeps intro!: bexI[of _ r] exI[of _ i])
  then have cells: "\<not> all_cells (\<lambda>l c. l \<in> set str_cols \<longrightarrow> is_str c) (fillna ?df1)"
    by (simp add: fillna_def all_cells_map_cells)
  show ?thesis
    using len keys cells by (simp add: clean_result_def clean_data_def Let_def)
qed

theorem clean_data_requires_strings_witness:
  "wf_frame numeric_name_sample \<and> distinct (take 4 (columns numeric_name_sample)) \<and>
   has_non_string numeric_name_sample \<and> clean_result numeric_name_sample = Inl AttributeError"
proof -
  have h1: "wf_frame numeric_name_sample" by code_simp
  have h2: "distinct (take 4 (columns numeric_name_sample))" by code_simp
  have h3: "has_non_string numeric_name_sample" by code_simp
  have h4: "\<not> length (columns numeric_name_sample) < 4" by code_simp
  show ?thesis
    using clean_data_requires_strings[OF h1 h2 h3] h1 h2 h3 h4 by simp
qed

section \<open>Cell by cell\<close>

lemma map2_map2: "map2 f xs (map2 g xs ys) = map2 (\<lambda>x y. f x (g x y)) xs ys"
  by (induction xs ys rule: list_induct2') auto

lemma map_cells_comp: "map_cells f (map_cells g df) = map_cells (\<lambda>l c. f l (g l c)) df"
  by (simp add: map_cells_def map2_map2)

lemma map2_ident:
  "length ys \<le> length xs \<Longrightarrow> list_all (\<lambda>(x, y). f x y = y) (zip xs ys) \<Longrightarrow> map2 f xs ys = ys"
  by (induction xs ys rule: list_induct2') auto

lemma map_cells_ident:
  assumes "\<forall>r\<in>set (rows df). length r \<le> length (columns df)"
    and "all_cells (\<lambda>l c. f l c = c) df"
  shows "map_cells f df = df"
proof -
  have "map (\<lambda>r. map2 f (columns df) r) (rows df) = rows df"
    using assms by (intro map_idI) (auto simp: all_cells_def list_all_iff intro!: map2_ident)
  then show ?thesis by (simp add: map_cells_def)
qed

lemma all_cells_conj:
  "all_cells p df \<Longrightarrow> all_cells q df \<Longrightarrow> all_cells (\<lambda>l c. p l c \<and> q l c) df"
  by (auto simp: all_cells_iff)

lemma all_cells_mono:
  "all_cells p df \<Longrightarrow> (\<And>l c. p l c \<Longrightarrow> q l c) \<Longrightarrow> all_cells q df"
  by (auto simp: all_cells_iff)

lemma cleaned_cells: "cleaned df = map_cells clean_cell (rename_columns df)"
proof -
  have "clean_cell = (\<lambda>l c.
      (if l \<in> set str_cols then replace_symbols_cell else (\<lambda>c. c))
        ((if l = ''name'' then str_replace_corp else (\<lambda>c. c))
          (strip_cell ((if l \<in> set str_cols then lower_cell else (\<lambda>c. c)) (fillna_cell l c)))))"
    by (intro ext) (simp add: clean_cell_def Let_def)
  moreover have "cleaned df = map_cells (\<lambda>l c.
      (if l \<in> set str_cols then replace_symbols_cell else (\<lambda>c. c))
        ((if l = ''name'' then str_replace_corp else (\<lambda>c. c))
          (strip_cell ((if l \<in> set str_cols then lower_cell else (\<lambda>c. c)) (fillna_cell l c)))))
      (rename_columns df)"
    unfolding cleaned_def remove_symbols_columns_def remove_corp_name_def strip_frame_def
      lower_columns_def fillna_def map_cells_comp
    by (intro arg_cong2[where f = map_cells] ext refl) simp
  ultimately show ?thesis by simp
qed

lemma lower_char_idem: "lower_char (lower_char c) = lower_char c"
  by (simp add: lower_char_def)

lemma set_strip: "set (strip s) \<subseteq> set s"
  by (auto simp: strip_def dest!: set_dropWhileD)

lemma set_remove_corp: "set (remove_corp s) \<subseteq> set s"
  by (induction s rule: remove_corp.induct) (auto dest: in_set_dropD)

lemma set_remove_symbols: "set (remove_symbols s) \<subseteq> set s"
  by (auto simp: remove_symbols_def)

lemma remove_symbols_idem: "remove_symbols (remove_symbols s) = remove_symbols s"
  by (simp add: remove_symbols_def)

lemma lower_fixed: "\<forall>c\<in>set s. lower_char c = c \<Longrightarrow> lower s = s"
  by (simp add: lower_def map_idI)

lemma suffix_free_remove_corp: "suffix_free s \<Longrightarrow> remove_corp s = s"
  by (induction s) auto

lemma trimmed_strip_id: "trimmed s \<Longrightarrow> strip s = s"
proof (cases s)
  case Nil
  then show ?thesis by (simp add: strip_def)
next
  case (Cons c cs)
  assume "trimmed s"
  then have h: "\<not> is_space (hd s)" "\<not> is_space (last s)" using Cons by (auto simp: trimmed_def)
  have 1: "dropWhile is_space s = s" using h(1) Cons by simp
  have "s \<noteq> []" using Cons by simp
  then have "hd (rev s) = last s" by (simp add: hd_rev)
  then have 2: "dropWhile is_space (rev s) = rev s"
    using h(2) by (simp only: dropWhile_eq_self_iff) simp
  show ?thesis by (simp add: strip_def 1 2)
qed

lemma trimmed_strip: "trimmed (strip s)"
proof (cases "strip s = []")
  case True
  then show ?thesis by (simp add: trimmed_def)
next
  case False
  let ?a = "dropWhile is_space s"
  let ?b = "dropWhile is_space (rev ?a)"
  have b: "?b \<noteq> []" using False by (simp add: strip_def)
  then have hb: "\<not> is_space (hd ?b)" by (rule hd_dropWhile)
  have a: "?a \<noteq> []"
  proof
    assume "?a = []"
    then have "?b = []" by (simp only: rev.simps dropWhile.simps)
    then show False using b by (simp only:)
  qed
  then have ha: "\<not> is_space (hd ?a)" by (rule hd_dropWhile)
  have last: "last (strip s) = hd ?b" using b by (simp add: strip_def last_rev)
  have "rev ?a = takeWhile is_space (rev ?a) @ ?b" by simp
  then have "last (rev ?a) = last ?b" using b by (metis last_appendR)
  then have "hd (strip s) = hd ?a" using a b by (simp add: strip_def hd_rev last_rev)
  then show ?thesis using False ha hb last by (simp add: trimmed_def)
qed


lemma strip_cell_idem: "strip_cell (strip_cell c) = strip_cell c"
  by (cases c) (simp_all add: trimmed_strip trimmed_strip_id)

lemma fillna_strip_fillna:
  "fillna_cell l (strip_cell (fillna_cell l c)) = strip_cell (fillna_cell l c)"
  by (cases c) (auto simp: fillna_cell_def fill_value_def split: option.splits cell.splits)

lemma lower_lower: "lower (lower s) = lower s"
  by (simp add: lower_def lower_char_idem)

lemma lower_subset: "set t \<subseteq> set (lower s) \<Longrightarrow> lower t = t"
  by (rule lower_fixed) (auto simp: lower_def lower_char_idem)

lemma clean_cell_text:
  assumes "l \<in> set str_cols" and "fillna_cell l c = Str s0"
  shows "clean_cell l c =
     Str (remove_symbols (if l = ''name'' then remove_corp (strip (lower s0)) else strip (lower s0)))"
  using assms by (simp add: clean_cell_def Let_def)

lemma clean_cell_other:
  assumes "l \<notin> set str_cols"
  shows "clean_cell l c = strip_cell (fillna_cell l c)"
  using assms by (auto simp: clean_cell_def Let_def str_cols_def)

lemma clean_cell_fixed:
  assumes A: "l \<in> set str_cols \<longrightarrow> is_str (fillna_cell l c)"
    and T: "l \<in> set str_cols \<longrightarrow> cell_trimmed (clean_cell l c)"
    and S: "l = ''name'' \<longrightarrow> cell_suffix_free (clean_cell l c)"
  shows "clean_cell l (clean_cell l c) = clean_cell l c"
    and "l \<in> set str_cols \<longrightarrow> is_str (fillna_cell l (clean_cell l c))"
proof -
  show "clean_cell l (clean_cell l c) = clean_cell l c"
  proof (cases "l \<in> set str_cols")
    case True
    then obtain s0 where s0: "fillna_cell l c = Str s0"
      using A by (cases "fillna_cell l c") auto
    define s1 where "s1 = remove_symbols
      (if l = ''name'' then remove_corp (strip (lower s0)) else strip (lower s0))"
    have c1: "clean_cell l c = Str s1"
      using clean_cell_text[OF True s0] by (simp add: s1_def)
    have "set (strip (lower s0)) \<subseteq> set (lower s0)" by (rule set_strip)
    moreover have "set (remove_corp (strip (lower s0))) \<subseteq> set (strip (lower s0))"
      by (rule set_remove_corp)
    ultimately have "set (if l = ''name'' then remove_corp (strip (lower s0)) else strip (lower s0))
        \<subseteq> set (lower s0)"
      by auto
    then have "set s1 \<subseteq> set (lower s0)"
      unfolding s1_def using set_remove_symbols by blast
    then have low: "lower s1 = s1" by (rule lower_subset)
    have tr: "strip s1 = s1" using T True c1 by (simp add: trimmed_strip_id)
    have co: "l = ''name'' \<Longrightarrow> remove_corp s1 = s1"
      using S c1 by (simp add: suffix_free_remove_corp)
    have sy: "remove_symbols s1 = s1" by (simp add: s1_def remove_symbols_idem)
    have f: "fillna_cell l (Str s1) = Str s1" by (simp add: fillna_cell_keeps)
    have "clean_cell l (Str s1) = Str s1"
      using clean_cell_text[OF True f] low tr co sy by auto
    then show ?thesis by (simp add: c1)
  next
    case False
    then show ?thesis
      by (simp add: clean_cell_other fillna_strip_fillna strip_cell_idem)
  qed
  show "l \<in> set str_cols \<longrightarrow> is_str (fillna_cell l (clean_cell l c))"
  proof
    assume l: "l \<in> set str_cols"
    then obtain s0 where s0: "fillna_cell l c = Str s0"
      using A by (cases "fillna_cell l c") auto
    show "is_str (fillna_cell l (clean_cell l c))"
      by (simp add: clean_cell_text[OF l s0] fillna_cell_keeps)
  qed
qed

lemma rename_label_fixed:
  assumes "cs ! 0 = ''name''" "cs ! 1 = ''address''" "cs ! 2 = ''city''" "cs ! 3 = ''zip''"
  shows "rename_label cs l = l"
  using assms by (simp add: rename_label_def)

lemma rename_columns_fixed:
  assumes "columns df ! 0 = ''name''" "columns df ! 1 = ''address''"
    "columns df ! 2 = ''city''" "columns df ! 3 = ''zip''"
  shows "rename_columns df = df"
proof -
  have "map (rename_label (columns df)) (columns df) = columns df"
    by (rule map_idI) (rule rename_label_fixed[OF assms])
  then show ?thesis by (simp add: rename_columns_def)
qed

lemma clean_result_checks:
  "clean_result df = Inr d \<longleftrightarrow>
     4 \<le> length (columns df) \<and> set str_cols \<subseteq> set (columns (rename_columns df)) \<and>
     all_cells (\<lambda>l c. l \<in> set str_cols \<longrightarrow> is_str (fillna_cell l c)) (rename_columns df) \<and>
     d = cleaned df"
  using nrows_cleaned[of df]
  by (auto simp: clean_result_def clean_data_def Let_def check_count_def cleaned_def
      fillna_def all_cells_map_cells)

lemma short_rows_map_cells:
  "\<forall>r\<in>set (rows (map_cells f df)). length r \<le> length (columns (map_cells f df))"
  by (auto simp: map_cells_def)


section \<open>The caller's table\<close>

text \<open>
  C9 as stated does not hold: after the call on \<open>raw_sample\<close> the caller's table has
  other labels and other cells than before.
\<close>

theorem clean_data_mutates_caller_counterexample:
  "caller_after_clean raw_sample \<noteq> raw_sample"
  by code_simp

text \<open>
  C9, amended. \<open>clean_data\<close> returns a new table, and it changes the caller's table in
  place. When it returns, the caller's table has its first four columns renamed, its missing
  values filled and its text columns in lowercase; trimming, suffix removal and symbol
  removal reach the returned table only. When it raises for a missing label or for a cell
  that is not a string, the caller's table is already renamed and filled. Only the
  \<open>IndexError\<close> of a table of fewer than four columns leaves it as it was. The number of
  rows of the caller's table never changes.
\<close>

theorem clean_data_changes_caller_table:
  "(clean_result df = Inr d \<longrightarrow>
      caller_after_clean df = lower_columns (fillna (rename_columns df)) \<and>
      d = remove_symbols_columns (remove_corp_name (strip_frame (caller_after_clean df)))) \<and>
   (clean_result df = Inl IndexError \<longrightarrow> caller_after_clean df = df) \<and>
   (clean_result df = Inl KeyError \<or> clean_result df = Inl AttributeError \<longrightarrow>
      caller_after_clean df = fillna (rename_columns df)) \<and>
   nrows (caller_after_clean df) = nrows df"
  by (auto simp: clean_result_def caller_after_clean_def clean_data_def Let_def check_count_def
      lower_columns_def fillna_def split: if_splits)

theorem clean_data_changes_caller_table_witness:
  "clean_result raw_sample = Inr clean_sample \<and>
   caller_after_clean raw_sample = caller_sample_after \<and>
   clean_sample = remove_symbols_columns (remove_corp_name (strip_frame caller_sample_after)) \<and>
   clean_result three_column_sample = Inl IndexError \<and>
   caller_after_clean three_column_sample = three_column_sample \<and>
   clean_result numeric_name_sample = Inl AttributeError \<and>
   caller_after_clean numeric_name_sample = fillna (rename_columns numeric_name_sample)"
proof -
  have h1: "clean_result raw_sample = Inr clean_sample" by code_simp
  have h2: "clean_result three_column_sample = Inl IndexError" by code_simp
  have h3: "clean_result numeric_name_sample = Inl AttributeError" by code_simp
  have e: "lower_columns (fillna (rename_columns raw_sample)) = caller_sample_after"
    by code_simp
  show ?thesis
    using clean_data_changes_caller_table[of raw_sample clean_sample]
      clean_data_changes_caller_table[of three_column_sample clean_sample]
      clean_data_changes_caller_table[of numeric_name_sample clean_sample]
      h1 h2 h3 e
    by metis
qed

section \<open>A second pass\<close>

text \<open>
  C6 as stated does not hold: the first pass turns \<open>acme l.lc\<close> into \<open>acme llc\<close>, because
  the suffixes are removed before the symbols are, and the second pass turns that into
  \<open>acme\<close>.
\<close>

theorem clean_data_not_idempotent_counterexample:
  "clean_result dotted_suffix_sample =
     Inr \<lparr>columns = [''name'', ''address'', ''city'', ''zip''],
          rows = [[Str ''acme llc'', Str ''1 main st'', Str ''springfield'', Num 11111]]\<rparr> \<and>
   clean_twice dotted_suffix_sample =
     Inr \<lparr>columns = [''name'', ''address'', ''city'', ''zip''],
          rows = [[Str ''acme'', Str ''1 main st'', Str ''springfield'', Num 11111]]\<rparr> \<and>
   clean_twice dotted_suffix_sample \<noteq> clean_result dotted_suffix_sample"
  by code_simp

text \<open>
  C6, amended. When the table \<open>clean_data\<close> returns has no whitespace at either end of a
  name, address or city and none of the three suffixes in a name, a second pass returns that
  table unchanged. (Its text is in lowercase and free of symbols by the first pass.) The
  first four labels of the input are taken to be distinct.
\<close>

theorem clean_data_second_pass:
  assumes d4: "distinct (take 4 (columns df))"
    and res: "clean_result df = Inr d"
    and tr: "text_trimmed d"
    and sf: "names_suffix_free d"
  shows "clean_result d = Inr d"
proof -
  let ?df1 = "rename_columns df"
  from res have len: "4 \<le> length (columns df)"
    and keys: "set str_cols \<subseteq> set (columns ?df1)"
    and chk: "all_cells (\<lambda>l c. l \<in> set str_cols \<longrightarrow> is_str (fillna_cell l c)) ?df1"
    and d: "d = map_cells clean_cell ?df1"
    by (simp_all add: clean_result_checks cleaned_cells)
  have cols: "columns d = columns ?df1" by (simp add: d)
  have ren: "rename_columns d = d"
    using renamed_first4[OF len d4] by (intro rename_columns_fixed) (simp_all add: cols)
  have T: "all_cells (\<lambda>l c. l \<in> set str_cols \<longrightarrow> cell_trimmed (clean_cell l c)) ?df1"
    using tr by (simp add: text_trimmed_def d all_cells_map_cells)
  have S: "all_cells (\<lambda>l c. l = ''name'' \<longrightarrow> cell_suffix_free (clean_cell l c)) ?df1"
    using sf by (simp add: names_suffix_free_def d all_cells_map_cells)
  have all: "all_cells (\<lambda>l c. clean_cell l (clean_cell l c) = clean_cell l c \<and>
      (l \<in> set str_cols \<longrightarrow> is_str (fillna_cell l (clean_cell l c)))) ?df1"
    by (rule all_cells_mono[OF all_cells_conj[OF chk all_cells_conj[OF T S]]])
      (simp add: clean_cell_fixed)
  have "all_cells (\<lambda>l c. clean_cell l (clean_cell l c) = clean_cell l c) ?df1"
    by (rule all_cells_mono[OF all]) simp
  then have fixed: "all_cells (\<lambda>l c. clean_cell l c = c) d"
    by (simp add: d all_cells_map_cells)
  have "all_cells (\<lambda>l c. l \<in> set str_cols \<longrightarrow> is_str (fillna_cell l (clean_cell l c))) ?df1"
    by (rule all_cells_mono[OF all]) simp
  then have chk': "all_cells (\<lambda>l c. l \<in> set str_cols \<longrightarrow> is_str (fillna_cell l c)) d"
    by (simp add: d all_cells_map_cells)
  have "cleaned d = map_cells clean_cell d"
    by (simp add: cleaned_cells ren)
  also have "\<dots> = d"
    using fixed short_rows_map_cells[of clean_cell ?df1]
    by (intro map_cells_ident) (simp_all add: d)
  finally have "cleaned d = d" .
  moreover have "4 \<le> length (columns d)" using len by (simp add: cols)
  ultimately show ?thesis
    using keys chk' by (simp add: clean_result_checks ren cols)
qed


theorem clean_data_second_pass_witness:
  "distinct (take 4 (columns raw_sample)) \<and> clean_result raw_sample = Inr clean_sample \<and>
   text_trimmed clean_sample \<and> names_suffix_free clean_sample \<and>
   clean_result clean_sample = Inr clean_sample"
proof -
  have h1: "distinct (take 4 (columns raw_sample))" by code_simp
  have h2: "clean_result raw_sample = Inr clean_sample" by code_simp
  have h3: "text_trimmed clean_sample" by code_simp
  have h4: "names_suffix_free clean_sample" by code_simp
  show ?thesis
    using clean_data_second_pass[OF h1 h2 h3 h4] h1 h2 h3 h4 by simp
qed

section \<open>\<open>remove_dupes\<close>: one row per key\<close>

lemma col_index_less: "l \<in> set cs \<Longrightarrow> col_index cs l < length cs"
  by (induction cs) auto

lemma nth_col_index: "l \<in> set cs \<Longrightarrow> cs ! col_index cs l = l"
  by (induction cs) auto

lemma col_index_append: "l \<in> set cs \<Longrightarrow> col_index (cs @ ds) l = col_index cs l"
  by (induction cs) auto

lemma col_index_key_cols:
  "col_index (key_cols @ ds) ''name'' = 0" "col_index (key_cols @ ds) ''address'' = 1"
  "col_index (key_cols @ ds) ''city'' = 2" "col_index (key_cols @ ds) ''zip'' = 3"
  "col_index (key_cols @ ''occurrences'' # ds) ''occurrences'' = 4"
  by (simp_all add: key_cols_def)

lemma length_key_of [simp]: "length (key_of df r) = 4"
  by (simp add: key_of_def key_cols_def)

lemma key_of_grouped:
  assumes "columns g = key_cols @ ''occurrences'' # ds" "length k = 4"
  shows "key_of g (k @ cs) = k"
proof -
  obtain a b c d where k: "k = [a, b, c, d]"
    using assms(2) by (auto simp: numeral_eq_Suc length_Suc_conv)
  show ?thesis
    using assms(1) by (simp add: key_of_def get_cell_def col_index_key_cols k key_cols_def)
qed

lemma keep_first_distinct:
  "distinct (map f xs) \<Longrightarrow> f ` set xs \<inter> set seen = {} \<Longrightarrow> keep_first seen f xs = xs"
  by (induction xs arbitrary: seen) auto


lemma has_key_columns_iff:
  "has_key_columns df \<longleftrightarrow> (\<forall>l\<in>set key_cols. count_list (columns df) l = 1)"
  by (simp add: has_key_columns_def list_all_iff)

lemma has_key_columns_subset: "has_key_columns df \<Longrightarrow> set key_cols \<subseteq> set (columns df)"
proof
  fix l assume "has_key_columns df" "l \<in> set key_cols"
  then have "count_list (columns df) l = 1" by (simp add: has_key_columns_iff)
  then show "l \<in> set (columns df)" by (metis count_list_0_iff zero_neq_one)
qed

lemma groupby_size_returns:
  assumes "has_key_columns df"
  shows "groupby_size df = Inr \<lparr>columns = key_cols @ [''occurrences''], rows = grouped_rows df\<rparr>"
proof -
  have "\<not> list_ex (\<lambda>l. 1 < count_list (columns df) l) key_cols"
    using assms by (simp add: has_key_columns_iff list_ex_iff)
  then show ?thesis
    using has_key_columns_subset[OF assms]
    by (simp add: groupby_size_def grouped_rows_def grouped_keys_def Let_def)
qed

lemma grouped_keys_length: "k \<in> set (grouped_keys df) \<Longrightarrow> length k = 4"
  by (auto simp: grouped_keys_def)

lemma map_key_of_grouped_rows:
  assumes "columns g = key_cols @ ''occurrences'' # ds"
  shows "map (key_of g) (grouped_rows df) = sort_key (map cell_ord) (remdups (grouped_keys df))"
proof -
  have "\<And>k. k \<in> set (sort_key (map cell_ord) (remdups (grouped_keys df))) \<Longrightarrow>
      key_of g (k @ [Num (int (count_list (grouped_keys df) k))]) = k"
    by (rule key_of_grouped[OF assms]) (simp add: grouped_keys_length)
  then show ?thesis
    unfolding grouped_rows_def map_map comp_def by (intro map_idI) simp
qed

lemma distinct_keys_grouped_rows:
  assumes "columns g = key_cols @ ''occurrences'' # ds"
  shows "distinct (map (key_of g) (grouped_rows df))"
  by (simp add: map_key_of_grouped_rows[OF assms])

lemma length_grouped_rows: "r \<in> set (grouped_rows df) \<Longrightarrow> length r = 5"
  by (auto simp: grouped_rows_def grouped_keys_length)

lemma get_cell_map_cells:
  assumes "k \<in> set (columns df)" "length r = length (columns df)"
  shows "get_cell (map_cells f df) k (map2 f (columns df) r) = f k (get_cell df k r)"
  using assms col_index_less[OF assms(1)] nth_col_index[OF assms(1)]
  by (simp add: get_cell_def)

lemma column_set_column:
  assumes wf: "wf_frame df" and k: "k \<in> set (columns df)" and kl: "k \<noteq> l"
  shows "map (get_cell (set_column l v df) k) (rows (set_column l v df))
       = map (get_cell df k) (rows df)"
proof (cases "l \<in> set (columns df)")
  case True
  have "\<And>r. r \<in> set (rows df) \<Longrightarrow>
      get_cell (map_cells (\<lambda>l' c. if l' = l then v else c) df) k
        (map2 (\<lambda>l' c. if l' = l then v else c) (columns df) r) = get_cell df k r"
    using wf k kl by (subst get_cell_map_cells) (auto simp: wf_frame_def list_all_iff)
  then show ?thesis
    using True by (simp add: set_column_def map_cells_def comp_def)
next
  case False
  have "\<And>r. r \<in> set (rows df) \<Longrightarrow> (r @ [v]) ! col_index (columns df) k = r ! col_index (columns df) k"
    using wf col_index_less[OF k] by (auto simp: wf_frame_def list_all_iff nth_append)
  then show ?thesis
    using False k by (simp add: set_column_def get_cell_def col_index_append comp_def)
qed

lemma wf_frame_set_column: "wf_frame df \<Longrightarrow> wf_frame (set_column l v df)"
  by (auto simp: set_column_def wf_frame_map_cells) (auto simp: wf_frame_def list_all_iff)

lemma columns_set_column:
  "set (columns (set_column l v df)) = insert l (set (columns df))"
  by (auto simp: set_column_def)

lemma length_rows_set_column [simp]: "length (rows (set_column l v df)) = length (rows df)"
  by (simp add: set_column_def map_cells_def)


lemma key_of_cong: "columns a = columns b \<Longrightarrow> key_of a = key_of b"
  by (intro ext) (simp add: key_of_def get_cell_def)

lemma get_cell_cong: "columns a = columns b \<Longrightarrow> get_cell a = get_cell b"
  by (intro ext) (simp add: get_cell_def)

lemma columns_sorted_grouped [simp]:
  "columns (sort_values_occurrences_name (grouped df)) = key_cols @ [''occurrences'']"
  by (simp add: sort_values_occurrences_name_def grouped_def)

lemma mset_rows_sorted_grouped:
  "mset (rows (sort_values_occurrences_name (grouped df))) = mset (grouped_rows df)"
  by (simp add: sort_values_occurrences_name_def grouped_def)

lemma distinct_map_mset: "mset xs = mset ys \<Longrightarrow> distinct (map f xs) = distinct (map f ys)"
proof -
  assume "mset xs = mset ys"
  then have "mset (map f xs) = mset (map f ys)" by simp
  then show ?thesis by (rule mset_eq_imp_distinct_iff)
qed

lemma keys_sorted_grouped_distinct:
  "distinct (keys_of (sort_values_occurrences_name (grouped df)))"
proof -
  let ?X = "sort_values_occurrences_name (grouped df)"
  have "key_of ?X = key_of (grouped df)"
    by (rule key_of_cong) (simp add: sort_values_occurrences_name_def)
  moreover have "distinct (map (key_of (grouped df)) (grouped_rows df))"
    by (rule distinct_keys_grouped_rows[where ds = "[]"]) (simp add: grouped_def)
  ultimately show ?thesis
    using distinct_map_mset[OF mset_rows_sorted_grouped[of df], of "key_of (grouped df)"]
    by (simp add: keys_of_def)
qed

lemma drop_duplicates_sorted_grouped:
  "drop_duplicates (sort_values_occurrences_name (grouped df))
     = sort_values_occurrences_name (grouped df)"
proof -
  let ?X = "sort_values_occurrences_name (grouped df)"
  have "keep_first [] (key_of ?X) (rows ?X) = rows ?X"
    using keys_sorted_grouped_distinct[of df]
    by (intro keep_first_distinct) (simp_all add: keys_of_def)
  then show ?thesis by (simp add: drop_duplicates_def)
qed

lemma remove_dupes_returns:
  assumes "has_key_columns df"
  shows "remove_dupes df source =
     Inr (let df' = sort_values_occurrences_name (grouped df)
          in if source = ''file1''
             then set_column ''file2'' (Bool False) (set_column source (Bool True) df')
             else set_column source (Bool True) (set_column ''file1'' (Bool False) df'))"
  using groupby_size_returns[OF assms]
  by (simp add: remove_dupes_def drop_duplicates_sorted_grouped[unfolded grouped_def] grouped_def Let_def)

lemma wf_sorted_grouped: "wf_frame (sort_values_occurrences_name (grouped df))"
proof -
  have "\<forall>r\<in>set (rows (sort_values_occurrences_name (grouped df))). length r = 5"
    using length_grouped_rows[of _ df]
    by (simp add: sort_values_occurrences_name_def grouped_def)
  then show ?thesis
    by (simp add: wf_frame_def list_all_iff key_cols_def)
qed


lemma column_set_column2:
  assumes "wf_frame X" "k \<in> set (columns X)" "k \<noteq> a" "k \<noteq> b"
  shows "map (get_cell (set_column a v (set_column b w X)) k) (rows (set_column a v (set_column b w X)))
       = map (get_cell X k) (rows X)"
proof -
  have "map (get_cell (set_column a v (set_column b w X)) k) (rows (set_column a v (set_column b w X)))
      = map (get_cell (set_column b w X) k) (rows (set_column b w X))"
    using assms by (intro column_set_column wf_frame_set_column) (auto simp: columns_set_column)
  also have "\<dots> = map (get_cell X k) (rows X)"
    using assms by (intro column_set_column)
  finally show ?thesis .
qed















section \<open>\<open>combine_dataframes\<close>\<close>

lemma set_keep_first_labels [simp]: "set (keep_first_labels ls) = set ls"
  by (induction ls) auto

lemma distinct_keep_first_labels [simp]: "distinct (keep_first_labels ls)"
  by (induction ls) auto

lemma length_reindex_row [simp]: "length (reindex_row new old r) = length new"
  by (simp add: reindex_row_def)

lemma get_cell_reindex_row:
  assumes "l \<in> set new" "l \<in> set old" "columns df = new" "columns x = old"
  shows "get_cell df l (reindex_row new old r) = get_cell x l r"
  using assms col_index_less[OF assms(1)] nth_col_index[OF assms(1)]
  by (simp add: get_cell_def reindex_row_def)

lemma dedup_schema_iff:
  "dedup_schema df \<longleftrightarrow>
     wf_frame df \<and> distinct (columns df) \<and> ''name'' \<in> set (columns df) \<and>
     ''id'' \<notin> set (columns df) \<and> (\<forall>r\<in>set (rows df). is_str (get_cell df ''name'' r))"
  by (simp add: dedup_schema_def list_all_iff)

lemma concat_frames_schema:
  assumes ne: "dataframes \<noteq> []" and sch: "list_all dedup_schema dataframes"
  shows "\<exists>df. concat_frames dataframes = Inr df \<and> dedup_schema df \<and>
     nrows df = sum_list (map nrows dataframes)"
proof -
  obtain d ds where dfs: "dataframes = d # ds" using ne by (cases dataframes) auto
  have all: "\<And>x. x \<in> set dataframes \<Longrightarrow> dedup_schema x"
    using sch by (simp add: list_all_iff)
  show ?thesis
  proof (cases "list_all (\<lambda>x. columns x = columns d) ds")
    case True
    let ?df = "\<lparr>columns = columns d, rows = concat (map rows dataframes)\<rparr>"
    have same: "\<And>x. x \<in> set dataframes \<Longrightarrow> columns x = columns d"
      using True dfs by (auto simp: list_all_iff)
    have res: "concat_frames dataframes = Inr ?df"
      using True dfs by (simp add: concat_frames_def)
    have d: "dedup_schema d" using all dfs by simp
    have "dedup_schema ?df"
      unfolding dedup_schema_iff
    proof (intro conjI ballI)
      show "wf_frame ?df"
        using all same by (auto simp: wf_frame_def list_all_iff dedup_schema_iff)
      show "distinct (columns ?df)" "''name'' \<in> set (columns ?df)" "''id'' \<notin> set (columns ?df)"
        using d by (simp_all add: dedup_schema_iff)
    next
      fix r assume "r \<in> set (rows ?df)"
      then obtain x where x: "x \<in> set dataframes" "r \<in> set (rows x)" by auto
      have "get_cell ?df = get_cell x" by (rule get_cell_cong) (simp add: same[OF x(1)])
      then show "is_str (get_cell ?df ''name'' r)"
        using all[OF x(1)] x(2) by (simp add: dedup_schema_iff)
    qed
    moreover have "nrows ?df = sum_list (map nrows dataframes)"
      by (simp add: nrows_def[abs_def] length_concat comp_def)
    ultimately show ?thesis using res by blast
  next
    case False
    let ?cs = "keep_first_labels (concat (map columns dataframes))"
    let ?df = "\<lparr>columns = ?cs,
      rows = concat (map (\<lambda>x. map (reindex_row ?cs (columns x)) (rows x)) dataframes)\<rparr>"
    have "\<not> list_ex (\<lambda>x. \<not> distinct (columns x)) dataframes"
      using all by (auto simp: list_ex_iff dedup_schema_iff)
    then have res: "concat_frames dataframes = Inr ?df"
      using False dfs by (simp add: concat_frames_def Let_def)
    have d: "dedup_schema d" using all dfs by simp
    have "dedup_schema ?df"
      unfolding dedup_schema_iff
    proof (intro conjI ballI)
      show "wf_frame ?df" by (auto simp: wf_frame_def list_all_iff)
      show "distinct (columns ?df)" by simp
      show "''name'' \<in> set (columns ?df)"
        using d dfs by (auto simp: dedup_schema_iff)
      show "''id'' \<notin> set (columns ?df)"
        using all by (auto simp: dedup_schema_iff)
    next
      fix r assume "r \<in> set (rows ?df)"
      then obtain x r0 where x: "x \<in> set dataframes" "r0 \<in> set (rows x)"
        and r: "r = reindex_row ?cs (columns x) r0" by auto
      have nx: "''name'' \<in> set (columns x)" using all[OF x(1)] by (simp add: dedup_schema_iff)
      then have "''name'' \<in> set ?cs" using x(1) by auto
      then have "get_cell ?df ''name'' r = get_cell x ''name'' r0"
        unfolding r using nx by (intro get_cell_reindex_row) simp_all
      then show "is_str (get_cell ?df ''name'' r)"
        using all[OF x(1)] x(2) by (simp add: dedup_schema_iff)
    qed
    moreover have "nrows ?df = sum_list (map nrows dataframes)"
      by (simp add: nrows_def[abs_def] length_concat comp_def)
    ultimately show ?thesis using res by blast
  qed
qed

lemma count_list_distinct: "distinct xs \<Longrightarrow> count_list xs x \<le> 1"
  by (induction xs) auto

lemma mset_map_nth_indices:
  assumes "mset idx = mset [0..<length xs]"
  shows "mset (map (\<lambda>i. f (xs ! i)) idx) = mset (map f xs)"
proof -
  have "mset (map (\<lambda>i. f (xs ! i)) idx) = image_mset (\<lambda>i. f (xs ! i)) (mset idx)" by simp
  also have "\<dots> = mset (map (\<lambda>i. f (xs ! i)) [0..<length xs])" by (simp add: assms)
  also have "map (\<lambda>i. f (xs ! i)) [0..<length xs] = map f (map (\<lambda>i. xs ! i) [0..<length xs])"
    by simp
  also have "\<dots> = map f xs" by (simp only: map_nth)
  finally show ?thesis .
qed

lemma indices_in_range:
  assumes "mset idx = mset [0..<n]" "i \<in> set idx"
  shows "i < n"
proof -
  have "set idx = set [0..<n]" using assms(1) by (rule mset_eq_setD)
  then show ?thesis using assms(2) by simp
qed

lemma nargsort_no_missing:
  assumes ok: "argsort_ok argsort" and str: "list_all is_str ks"
  shows "nargsort argsort ks = argsort ks"
proof -
  have nn: "\<And>i. i < length ks \<Longrightarrow> ks ! i \<noteq> NA"
    using str by (auto simp: list_all_length)
  have f1: "filter (\<lambda>i. ks ! i \<noteq> NA) [0..<length ks] = [0..<length ks]"
    using nn by (intro filter_True) simp
  have f2: "filter (\<lambda>i. ks ! i = NA) [0..<length ks] = []"
    using nn by (intro filter_False) simp
  have m: "mset (argsort ks) = mset [0..<length ks]"
    using ok str by (simp add: argsort_ok_def sortable_def)
  have "map (\<lambda>j. [0..<length ks] ! j) (argsort ks) = argsort ks"
    using indices_in_range[OF m] by (intro map_idI) simp
  then show ?thesis
    by (simp add: nargsort_def Let_def f1 f2 map_nth)
qed

lemma names_column_str: "dedup_schema df \<Longrightarrow> list_all is_str (names_column df)"
  by (simp add: dedup_schema_def names_column_def list_all_iff)

lemma sort_values_name_schema:
  assumes ok: "argsort_ok argsort" and sch: "dedup_schema df"
  shows "sort_values_name argsort df =
           Inr (df\<lparr>rows := map (\<lambda>i. rows df ! i) (argsort (names_column df))\<rparr>)"
    and "mset (argsort (names_column df)) = mset [0..<nrows df]"
    and "sorted (map (\<lambda>i. cell_ord (names_column df ! i)) (argsort (names_column df)))"
proof -
  let ?ks = "names_column df"
  have str: "list_all is_str ?ks" by (rule names_column_str[OF sch])
  have nn: "filter (\<lambda>k. k \<noteq> NA) ?ks = ?ks"
    using str by (intro filter_True) (auto simp: list_all_iff)
  have so: "sortable ?ks" using str by (simp add: sortable_def)
  have c: "\<not> 1 < count_list (columns df) ''name''"
    using sch count_list_distinct[of "columns df" "''name''"] by (simp add: dedup_schema_def)
  have n: "''name'' \<in> set (columns df)" using sch by (simp add: dedup_schema_def)
  show "sort_values_name argsort df = Inr (df\<lparr>rows := map (\<lambda>i. rows df ! i) (argsort ?ks)\<rparr>)"
    using c n nn so nargsort_no_missing[OF ok str]
    by (simp add: sort_values_name_def Let_def names_column_def[symmetric])
  show "mset (argsort ?ks) = mset [0..<nrows df]"
    using ok so by (simp add: argsort_ok_def nrows_def names_column_def)
  show "sorted (map (\<lambda>i. cell_ord (?ks ! i)) (argsort ?ks))"
    using ok so by (simp add: argsort_ok_def)
qed

lemma without_column_absent:
  assumes "l \<notin> set cs" "length r = length cs"
  shows "without_column l cs r = r"
proof -
  have "filter (\<lambda>(l', c). l' \<noteq> l) (zip cs r) = zip cs r"
    using assms(1) by (intro filter_True) (auto dest: set_zip_leftD)
  then show ?thesis using assms(2) by (simp add: without_column_def)
qed

lemma add_id_schema:
  assumes "''id'' \<notin> set (columns df)" "wf_frame df"
  shows "add_id md5 df =
     \<lparr>columns = ''id'' # columns df, rows = map (\<lambda>r. Str (row_id md5 r) # r) (rows df)\<rparr>"
proof -
  have "filter (\<lambda>l. l \<noteq> ''id'') (columns df) = columns df"
    using assms(1) by (intro filter_True) auto
  moreover have "\<And>r. r \<in> set (rows df) \<Longrightarrow> without_column ''id'' (columns df) r = r"
    using assms by (intro without_column_absent) (auto simp: wf_frame_def list_all_iff)
  ultimately show ?thesis by (simp add: add_id_def)
qed

lemma combine_dataframes_schema:
  assumes ok: "argsort_ok argsort" and sch: "dedup_schema df"
    and cat: "concat_frames dataframes = Inr df"
  shows "combine_dataframes argsort md5 dataframes =
       Inr \<lparr>columns = ''id'' # columns df,
            rows = map (\<lambda>i. Str (row_id md5 (rows df ! i)) # rows df ! i)
                     (argsort (names_column df))\<rparr>"
proof -
  let ?idx = "argsort (names_column df)"
  note sv = sort_values_name_schema[OF ok sch]
  let ?s = "df\<lparr>rows := map (\<lambda>i. rows df ! i) ?idx\<rparr>"
  have wf: "wf_frame ?s"
  proof -
    have "\<And>i. i \<in> set ?idx \<Longrightarrow> length (rows df ! i) = length (columns df)"
      using indices_in_range[OF sv(2)] sch
      by (simp add: dedup_schema_def wf_frame_def list_all_length nrows_def)
    then show ?thesis by (simp add: wf_frame_def list_all_iff)
  qed
  have "''id'' \<notin> set (columns ?s)" using sch by (simp add: dedup_schema_def)
  from add_id_schema[OF this wf, of md5]
  show ?thesis
    by (simp add: combine_dataframes_def cat sv(1) comp_def)
qed


lemma stable_argsort_ok: "argsort_ok stable_argsort"
  by (simp add: argsort_ok_def stable_argsort_def)







section \<open>The merged table\<close>

lemma stacked_concat: "concat_frames dataframes = Inr df \<Longrightarrow> stacked dataframes = rows df"
  by (simp add: stacked_def)

lemma stacked_same_columns:
  assumes "dataframes \<noteq> []" "list_all (\<lambda>d. columns d = columns (hd dataframes)) dataframes"
  shows "stacked dataframes = concat (map rows dataframes)"
proof -
  obtain d ds where dfs: "dataframes = d # ds" using assms(1) by (cases dataframes) auto
  then have "list_all (\<lambda>x. columns x = columns d) ds" using assms(2) by simp
  then show ?thesis by (simp add: stacked_def concat_frames_def dfs)
qed

lemma mset_sorted_rows:
  assumes "mset idx = mset [0..<nrows df]"
  shows "mset (map (\<lambda>i. f (rows df ! i)) idx) = mset (map f (rows df))"
  using assms unfolding nrows_def by (rule mset_map_nth_indices)


lemma concat_frames_nrows:
  "concat_frames dataframes = Inr df \<Longrightarrow> nrows df = sum_list (map nrows dataframes)"
  by (auto simp: concat_frames_def nrows_def[abs_def] length_concat comp_def Let_def
      split: list.splits if_splits)

lemma length_nargsort:
  assumes ok: "argsort_ok argsort" and so: "sortable (filter (\<lambda>k. k \<noteq> NA) ks)"
  shows "length (nargsort argsort ks) = length ks"
proof -
  let ?nn = "filter (\<lambda>i. ks ! i \<noteq> NA) [0..<length ks]"
  have "map (\<lambda>i. ks ! i) ?nn = filter (\<lambda>k. k \<noteq> NA) (map (\<lambda>i. ks ! i) [0..<length ks])"
    by (simp add: filter_map comp_def)
  also have "\<dots> = filter (\<lambda>k. k \<noteq> NA) ks" by (simp only: map_nth)
  finally have nn: "map (\<lambda>i. ks ! i) ?nn = filter (\<lambda>k. k \<noteq> NA) ks" .
  have "mset (argsort (map (\<lambda>i. ks ! i) ?nn)) = mset [0..<length (map (\<lambda>i. ks ! i) ?nn)]"
    using ok so by (simp only: nn) (simp add: argsort_ok_def)
  then have "length (argsort (map (\<lambda>i. ks ! i) ?nn)) = length ?nn"
    using mset_eq_length by fastforce
  moreover have "length ?nn + length (filter (\<lambda>i. ks ! i = NA) [0..<length ks]) = length ks"
    using sum_length_filter_compl[of "\<lambda>i. ks ! i \<noteq> NA" "[0..<length ks]"] by simp
  ultimately show ?thesis by (simp add: nargsort_def Let_def)
qed

lemma sort_values_name_nrows:
  assumes "argsort_ok argsort" "sort_values_name argsort df = Inr s"
  shows "nrows s = nrows df"
  using assms(2) length_nargsort[OF assms(1)]
  by (auto simp: sort_values_name_def Let_def nrows_def split: if_splits)

lemma nrows_add_id [simp]: "nrows (add_id md5 df) = nrows df"
  by (simp add: add_id_def nrows_def)

lemma combine_dataframes_nrows:
  assumes "argsort_ok argsort" "combine_dataframes argsort md5 dataframes = Inr out"
  shows "nrows out = sum_list (map nrows dataframes)"
  using assms(2) concat_frames_nrows sort_values_name_nrows[OF assms(1)]
  by (auto simp: combine_dataframes_def split: sum.splits)

text \<open>
  C8. With no table to combine, \<open>pd.concat\<close> raises \<open>ValueError\<close> and so does
  \<open>combine_dataframes\<close>, whatever the sort and the digest: no empty table is returned.
\<close>

theorem combine_dataframes_empty:
  "combine_dataframes argsort md5 [] = Inl ValueError"
  by (simp add: combine_dataframes_def concat_frames_def)

text \<open>
  C7. For a sort that meets \<open>argsort_ok\<close>, whenever \<open>combine_dataframes\<close> returns a
  table it has as many rows as all the inputs together. On a non-empty list of tables of
  the deduplicated schema it does return, and its rows without the \<open>id\<close> are the stacked
  rows, each as often as it is stacked, so a key that two sources have gives two rows. When
  the tables have the same labels, the stacked rows are the rows of the inputs one after
  the other.
\<close>

theorem combine_dataframes_keeps_every_row:
  assumes "argsort_ok argsort"
  shows "(combine_dataframes argsort md5 dataframes = Inr out \<longrightarrow>
           nrows out = sum_list (map nrows dataframes)) \<and>
     (dataframes \<noteq> [] \<and> list_all dedup_schema dataframes \<longrightarrow>
        (\<exists>out'. combine_dataframes argsort md5 dataframes = Inr out' \<and>
           mset (map tl (rows out')) = mset (stacked dataframes) \<and>
           (list_all (\<lambda>d. columns d = columns (hd dataframes)) dataframes \<longrightarrow>
              stacked dataframes = concat (map rows dataframes))))"
proof (intro conjI impI)
  assume "combine_dataframes argsort md5 dataframes = Inr out"
  then show "nrows out = sum_list (map nrows dataframes)"
    by (rule combine_dataframes_nrows[OF assms])
next
  assume h: "dataframes \<noteq> [] \<and> list_all dedup_schema dataframes"
  then obtain df where df: "concat_frames dataframes = Inr df" "dedup_schema df"
    using concat_frames_schema by blast
  note idx = sort_values_name_schema(2)[OF assms df(2)]
  let ?out = "\<lparr>columns = ''id'' # columns df,
    rows = map (\<lambda>i. Str (row_id md5 (rows df ! i)) # rows df ! i) (argsort (names_column df))\<rparr>"
  have "combine_dataframes argsort md5 dataframes = Inr ?out"
    by (rule combine_dataframes_schema[OF assms df(2,1)])
  moreover have "mset (map tl (rows ?out)) = mset (stacked dataframes)"
    using mset_sorted_rows[OF idx, of "\<lambda>r. r"] by (simp add: comp_def stacked_concat[OF df(1)])
  ultimately show "\<exists>out'. combine_dataframes argsort md5 dataframes = Inr out' \<and>
      mset (map tl (rows out')) = mset (stacked dataframes) \<and>
      (list_all (\<lambda>d. columns d = columns (hd dataframes)) dataframes \<longrightarrow>
         stacked dataframes = concat (map rows dataframes))"
    using stacked_same_columns h by blast
qed

theorem combine_dataframes_keeps_every_row_witness:
  "[file1_sample, file2_sample] \<noteq> [] \<and>
   (\<exists>out. combine_dataframes stable_argsort sample_md5 [file1_sample, file2_sample] = Inr out \<and>
      nrows out = sum_list (map nrows [file1_sample, file2_sample]) \<and>
      nrows out = 3 \<and>
      mset (map tl (rows out)) = mset (stacked [file1_sample, file2_sample]) \<and>
      stacked [file1_sample, file2_sample] = concat (map rows [file1_sample, file2_sample]))"
proof -
  have h1: "argsort_ok stable_argsort" by (rule stable_argsort_ok)
  have h2: "[file1_sample, file2_sample] \<noteq> []" by simp
  have h3: "list_all dedup_schema [file1_sample, file2_sample]" by code_simp
  have h4: "list_all (\<lambda>d. columns d = columns (hd [file1_sample, file2_sample]))
      [file1_sample, file2_sample]" by code_simp
  have h5: "sum_list (map nrows [file1_sample, file2_sample]) = 3" by code_simp
  from combine_dataframes_keeps_every_row[OF h1, of sample_md5 "[file1_sample, file2_sample]"]
    h2 h3 h4
  obtain out where out:
    "combine_dataframes stable_argsort sample_md5 [file1_sample, file2_sample] = Inr out"
    "mset (map tl (rows out)) = mset (stacked [file1_sample, file2_sample])"
    "stacked [file1_sample, file2_sample] = concat (map rows [file1_sample, file2_sample])"
    by blast
  from combine_dataframes_keeps_every_row[OF h1, of sample_md5 "[file1_sample, file2_sample]" out]
    out(1)
  have "nrows out = sum_list (map nrows [file1_sample, file2_sample])" by blast
  then show ?thesis using out h2 h5 by auto
qed








section \<open>From one stage to the next\<close>

text \<open>
  What \<open>clean_data\<close> returns is a table \<open>remove_dupes\<close> is proved on, and what
  \<open>remove_dupes\<close> returns is a table of the schema \<open>combine_dataframes\<close> is proved on.
\<close>

lemma count_list_distinct_mem: "distinct xs \<Longrightarrow> x \<in> set xs \<Longrightarrow> count_list xs x = 1"
  using count_list_distinct[of xs x] count_list_0_iff[of xs x] by linarith

lemma clean_cell_key:
  assumes "l \<in> set key_cols" and "l \<in> set str_cols \<longrightarrow> is_str (fillna_cell l c)"
  shows "clean_cell l c \<noteq> NA" and "l \<in> set str_cols \<longrightarrow> is_str (clean_cell l c)"
proof -
  show "l \<in> set str_cols \<longrightarrow> is_str (clean_cell l c)"
  proof
    assume l: "l \<in> set str_cols"
    then obtain s0 where "fillna_cell l c = Str s0"
      using assms(2) by (cases "fillna_cell l c") auto
    then show "is_str (clean_cell l c)" by (simp add: clean_cell_text[OF l])
  qed
  show "clean_cell l c \<noteq> NA"
  proof (cases "l \<in> set str_cols")
    case True
    then obtain s0 where "fillna_cell l c = Str s0"
      using assms(2) by (cases "fillna_cell l c") auto
    then show ?thesis by (simp add: clean_cell_text[OF True])
  next
    case False
    then have "l = ''zip''" using assms(1) by (auto simp: key_cols_def str_cols_def)
    then have "fillna_cell l c \<noteq> NA"
      by (cases c) (simp_all add: fillna_cell_def fill_value_def)
    then have "strip_cell (fillna_cell l c) \<noteq> NA"
      by (cases "fillna_cell l c") simp_all
    then show ?thesis by (simp add: clean_cell_other[OF False])
  qed
qed

lemma clean_result_normalized:
  assumes wf: "wf_frame raw" and dist: "distinct (columns (rename_columns raw))"
    and res: "clean_result raw = Inr df"
  shows "wf_frame df" "distinct (columns df)" "has_key_columns df" "no_missing_keys df"
    "list_all (\<lambda>r. is_str (get_cell df ''name'' r)) (rows df)"
proof -
  let ?df1 = "rename_columns raw"
  let ?cs = "columns ?df1"
  from res have len: "4 \<le> length (columns raw)"
    and chk: "all_cells (\<lambda>l c. l \<in> set str_cols \<longrightarrow> is_str (fillna_cell l c)) ?df1"
    and df: "df = map_cells clean_cell ?df1"
    by (simp_all add: clean_result_checks cleaned_cells)
  have d4: "distinct (take 4 (columns raw))"
    using dist by (simp add: rename_columns_def distinct_map)
  note first = renamed_first4[OF len d4]
  show wfd: "wf_frame df" using wf by (simp add: df wf_frame_map_cells)
  show "distinct (columns df)" using dist by (simp add: df)
  have sub: "set key_cols \<subseteq> set ?cs"
  proof -
    have "?cs ! 0 \<in> set ?cs" "?cs ! 1 \<in> set ?cs" "?cs ! 2 \<in> set ?cs" "?cs ! 3 \<in> set ?cs"
      using len by (simp_all only: nth_mem length_columns_rename)
    then show ?thesis using first by (simp add: key_cols_def)
  qed
  then show "has_key_columns df"
    using dist by (auto simp: has_key_columns_iff df count_list_distinct_mem)
  have cell: "\<And>r k. r \<in> set (rows df) \<Longrightarrow> k \<in> set key_cols \<Longrightarrow>
      get_cell df k r \<noteq> NA \<and> (k \<in> set str_cols \<longrightarrow> is_str (get_cell df k r))"
  proof -
    fix r k assume r: "r \<in> set (rows df)" and k: "k \<in> set key_cols"
    then obtain r0 where r0: "r0 \<in> set (rows raw)" and rr: "r = map2 clean_cell ?cs r0"
      by (auto simp: df map_cells_def)
    have lr: "length r0 = length ?cs"
      using wf r0 by (simp add: wf_frame_def list_all_iff)
    have kc: "k \<in> set ?cs" using sub k by auto
    have g: "get_cell df k r = clean_cell k (get_cell ?df1 k r0)"
      unfolding df rr using kc lr by (intro get_cell_map_cells) simp_all
    have "k \<in> set str_cols \<longrightarrow> is_str (fillna_cell k (get_cell ?df1 k r0))"
    proof -
      let ?i = "col_index ?cs k"
      have i: "?i < length ?cs" "?i < length r0" "?cs ! ?i = k"
        using col_index_less[OF kc] nth_col_index[OF kc] lr by simp_all
      have "?cs ! ?i \<in> set str_cols \<longrightarrow> is_str (fillna_cell (?cs ! ?i) (r0 ! ?i))"
        using chk r0 i(1,2) unfolding all_cells_iff by (metis rows_rename_columns)
      then show ?thesis by (simp add: i(3) get_cell_def)
    qed
    then show "get_cell df k r \<noteq> NA \<and> (k \<in> set str_cols \<longrightarrow> is_str (get_cell df k r))"
      using clean_cell_key[OF k] by (simp add: g)
  qed
  show "no_missing_keys df"
    unfolding no_missing_keys_def list_all_iff key_of_def
  proof (intro ballI notI)
    fix r assume r: "r \<in> set (rows df)" and "NA \<in> set (map (\<lambda>l. get_cell df l r) key_cols)"
    then obtain l where "l \<in> set key_cols" "get_cell df l r = NA" by auto
    then show False using cell[OF r] by blast
  qed
  show "list_all (\<lambda>r. is_str (get_cell df ''name'' r)) (rows df)"
    using cell[of _ "''name''"] by (simp add: list_all_iff key_cols_def str_cols_def)
qed

lemma distinct_columns_set_column:
  "distinct (columns df) \<Longrightarrow> distinct (columns (set_column l v df))"
  by (simp add: set_column_def)

lemma names_grouped_rows:
  assumes "list_all (\<lambda>r. is_str (get_cell df ''name'' r)) (rows df)"
    and "columns g = key_cols @ ''occurrences'' # ds" and "r \<in> set (grouped_rows df)"
  shows "is_str (get_cell g ''name'' r)"
proof -
  from assms(3) obtain k c where k: "k \<in> set (grouped_keys df)" and r: "r = k @ [c]"
    by (auto simp: grouped_rows_def)
  from k obtain r0 where r0: "r0 \<in> set (rows df)" and kk: "k = key_of df r0"
    by (auto simp: grouped_keys_def)
  have "get_cell g ''name'' r = get_cell df ''name'' r0"
    using assms(2) by (simp add: r kk get_cell_def col_index_key_cols key_of_def key_cols_def)
  then show ?thesis using assms(1) r0 by (simp add: list_all_iff)
qed

lemma remove_dupes_schema:
  assumes keys: "has_key_columns df"
    and names: "list_all (\<lambda>r. is_str (get_cell df ''name'' r)) (rows df)"
    and src: "source \<notin> set (''id'' # ''occurrences'' # key_cols)"
  shows "\<exists>out. remove_dupes df source = Inr out \<and> dedup_schema out"
proof -
  let ?X = "sort_values_occurrences_name (grouped df)"
  have wfX: "wf_frame ?X" by (rule wf_sorted_grouped)
  have nX: "''name'' \<in> set (columns ?X)" by (simp add: key_cols_def)
  have dX: "distinct (columns ?X)" by (simp add: key_cols_def)
  have iX: "''id'' \<notin> set (columns ?X)" by (simp add: key_cols_def)
  have sX: "list_all is_str (map (get_cell ?X ''name'') (rows ?X))"
  proof -
    have "get_cell ?X = get_cell (grouped df)"
      by (rule get_cell_cong) (simp add: sort_values_occurrences_name_def)
    moreover have "set (rows ?X) = set (grouped_rows df)"
      using mset_rows_sorted_grouped[of df] by (rule mset_eq_setD)
    moreover have "columns (grouped df) = key_cols @ ''occurrences'' # []"
      by (simp add: grouped_def)
    ultimately show ?thesis
      using names_grouped_rows[OF names] by (simp add: list_all_iff)
  qed
  have step: "\<And>a b v w. a \<noteq> ''id'' \<Longrightarrow> b \<noteq> ''id'' \<Longrightarrow> a \<noteq> ''name'' \<Longrightarrow> b \<noteq> ''name'' \<Longrightarrow>
      dedup_schema (set_column a v (set_column b w ?X))"
  proof -
    fix a b v w
    assume ab: "a \<noteq> ''id''" "b \<noteq> ''id''" "a \<noteq> ''name''" "b \<noteq> ''name''"
    let ?out = "set_column a v (set_column b w ?X)"
    have "map (get_cell ?out ''name'') (rows ?out) = map (get_cell ?X ''name'') (rows ?X)"
      using ab by (intro column_set_column2[OF wfX nX]) simp_all
    then have "list_all is_str (map (get_cell ?out ''name'') (rows ?out))"
      using sX by simp
    then have "list_all (\<lambda>r. is_str (get_cell ?out ''name'' r)) (rows ?out)"
      by (simp add: list_all_iff)
    moreover have "wf_frame ?out" by (intro wf_frame_set_column wfX)
    moreover have "distinct (columns ?out)" by (intro distinct_columns_set_column dX)
    moreover have "''name'' \<in> set (columns ?out)" using nX by (simp add: columns_set_column)
    moreover have "''id'' \<notin> set (columns ?out)"
      using iX ab by (simp add: columns_set_column)
    ultimately show "dedup_schema ?out" by (simp add: dedup_schema_def)
  qed
  show ?thesis
  proof (cases "source = ''file1''")
    case True
    then show ?thesis
      using step[of "''file2''" "''file1''" "Bool False" "Bool True"]
      by (simp add: remove_dupes_returns[OF keys] Let_def)
  next
    case False
    then show ?thesis
      using step[of source "''file1''" "Bool True" "Bool False"] src
      by (simp add: remove_dupes_returns[OF keys] Let_def key_cols_def)
  qed
qed

end
